theory Spec2Isabelle
  imports Main
begin

section \<open>Values shared by the whole program\<close>

text \<open>
  The program is a Flask application (\<^verbatim>\<open>app.py\<close>): route handlers that share the
  module-level dictionaries \<^verbatim>\<open>upload_state\<close>, \<^verbatim>\<open>upload_queues\<close> and
  \<^verbatim>\<open>upload_meta\<close>, a worker \<^verbatim>\<open>process_upload\<close> run in a background thread, and the
  helper \<^verbatim>\<open>github_upload\<close>. Handlers and the worker are modelled as functions on an
  explicit \<open>world\<close>; an exception is a value of type \<open>exn\<close>.
\<close>

datatype exn =
    FileNotFoundError | IsADirectoryError | NotADirectoryError | FileExistsError
  | BadZipFile | EOFError | ConnectionError | JSONDecodeError | KeyError | TypeError
  | BadRequestKeyError

text \<open>JSON values: what \<^verbatim>\<open>response.json()\<close> returns and what \<^verbatim>\<open>json.dumps\<close> is given.\<close>

datatype jval =
    JNull | JBool bool | JNum int | JStr string
  | JArr "jval list" | JObj "(string \<times> jval) list"

text \<open>Python truthiness of a JSON value, as tested by \<^verbatim>\<open>if sha:\<close>.\<close>

definition truthy :: "jval \<Rightarrow> bool" where
  "truthy v = (case v of JNull \<Rightarrow> False | JBool b \<Rightarrow> b | JNum n \<Rightarrow> n \<noteq> 0
     | JStr s \<Rightarrow> s \<noteq> [] | JArr xs \<Rightarrow> xs \<noteq> [] | JObj kv \<Rightarrow> kv \<noteq> [])"

text \<open>\<^verbatim>\<open>v["sha"]\<close>: only a JSON object can be subscripted by a string.\<close>

definition subscript :: "jval \<Rightarrow> string \<Rightarrow> exn + jval" where
  "subscript v k = (case v of
       JObj kv \<Rightarrow> (case map_of kv k of None \<Rightarrow> Inl KeyError | Some x \<Rightarrow> Inr x)
     | _ \<Rightarrow> Inl TypeError)"

text \<open>Decimal rendering of a length, as an f-string prints it.\<close>

definition digit :: "nat \<Rightarrow> char" where
  "digit n = char_of (48 + n)"

function str_nat :: "nat \<Rightarrow> string" where
  "str_nat n = (if n < 10 then [digit n] else str_nat (n div 10) @ [digit (n mod 10)])"
  by pat_completeness auto
termination
  by (relation "measure id") auto

declare str_nat.simps [simp del]

section \<open>Paths and the working directory\<close>

text \<open>
  A path is its list of components. \<open>split_path\<close> reads a path string the way the
  operating system does, separating at \<^verbatim>\<open>/\<close> and skipping empty components;
  \<^verbatim>\<open>.\<close> and \<^verbatim>\<open>..\<close> are not interpreted.
\<close>

type_synonym path = "string list"

fun split_on :: "char \<Rightarrow> string \<Rightarrow> string list" where
  "split_on s [] = [[]]"
| "split_on s (c # cs) =
     (if c = s then [] # split_on s cs
      else (case split_on s cs of [] \<Rightarrow> [[c]] | x # xs \<Rightarrow> (c # x) # xs))"

definition split_path :: "string \<Rightarrow> path" where
  "split_path s = filter (\<lambda>c. c \<noteq> []) (split_on CHR ''/'' s)"

fun join_path :: "path \<Rightarrow> string" where
  "join_path [] = []"
| "join_path [n] = n"
| "join_path (n # m # p) = n @ ''/'' @ join_path (m # p)"

text \<open>
  The working directory is a tree. A directory keeps its entries in the order in which
  the operating system enumerates them (\<^verbatim>\<open>os.scandir\<close>); that order is the file
  system's own and is not sorted.
\<close>

datatype node = File string | Dir "(string \<times> node) list"


fun get_node :: "node \<Rightarrow> path \<Rightarrow> node option" where
  "get_node x [] = Some x"
| "get_node (File c) (n # p) = None"
| "get_node (Dir es) (n # p) = (case map_of es n of None \<Rightarrow> None | Some y \<Rightarrow> get_node y p)"

fun update_entry :: "string \<Rightarrow> node \<Rightarrow> (string \<times> node) list \<Rightarrow> (string \<times> node) list" where
  "update_entry n x [] = [(n, x)]"
| "update_entry n x ((m, y) # es) =
     (if m = n then (n, x) # es else (m, y) # update_entry n x es)"

definition delete_entry :: "string \<Rightarrow> (string \<times> node) list \<Rightarrow> (string \<times> node) list" where
  "delete_entry n es = filter (\<lambda>e. fst e \<noteq> n) es"

text \<open>
  \<open>alter p f\<close> applies \<open>f\<close> to what is found at \<open>p\<close> (\<open>None\<close> when the last component
  is absent): \<open>f\<close> raises, deletes the entry (\<open>Inr None\<close>) or stores a node. A new
  entry is appended to its directory. Every component before the last must be an
  existing directory.
\<close>

fun alter :: "path \<Rightarrow> (node option \<Rightarrow> exn + node option) \<Rightarrow> node \<Rightarrow> exn + node" where
  "alter p f (File c) = Inl NotADirectoryError"
| "alter [] f (Dir es) = Inl IsADirectoryError"
| "alter [n] f (Dir es) =
     (case f (map_of es n) of
        Inl e \<Rightarrow> Inl e
      | Inr None \<Rightarrow> Inr (Dir (delete_entry n es))
      | Inr (Some y) \<Rightarrow> Inr (Dir (update_entry n y es)))"
| "alter (n # m # p) f (Dir es) =
     (case map_of es n of
        None \<Rightarrow> Inl FileNotFoundError
      | Some y \<Rightarrow> (case alter (m # p) f y of
           Inl e \<Rightarrow> Inl e
         | Inr y' \<Rightarrow> Inr (Dir (update_entry n y' es))))"

text \<open>\<^verbatim>\<open>open(path, "rb").read()\<close>\<close>

definition read_file :: "node \<Rightarrow> path \<Rightarrow> exn + string" where
  "read_file root p = (case get_node root p of
       None \<Rightarrow> Inl FileNotFoundError
     | Some (Dir es) \<Rightarrow> Inl IsADirectoryError
     | Some (File c) \<Rightarrow> Inr c)"

text \<open>\<^verbatim>\<open>open(path, "wb").write(c)\<close>\<close>

definition write_file :: "path \<Rightarrow> string \<Rightarrow> node \<Rightarrow> exn + node" where
  "write_file p c root = alter p (\<lambda>old. case old of
       Some (Dir es) \<Rightarrow> Inl IsADirectoryError
     | _ \<Rightarrow> Inr (Some (File c))) root"

text \<open>\<^verbatim>\<open>os.remove(path)\<close>\<close>

definition os_remove :: "path \<Rightarrow> node \<Rightarrow> exn + node" where
  "os_remove p root = alter p (\<lambda>old. case old of
       None \<Rightarrow> Inl FileNotFoundError
     | Some (Dir es) \<Rightarrow> Inl IsADirectoryError
     | Some (File c) \<Rightarrow> Inr None) root"

text \<open>\<^verbatim>\<open>os.makedirs(path, exist_ok=True)\<close>\<close>

fun os_makedirs :: "path \<Rightarrow> node \<Rightarrow> exn + node" where
  "os_makedirs p (File c) = Inl (if p = [] then FileExistsError else NotADirectoryError)"
| "os_makedirs [] (Dir es) = Inr (Dir es)"
| "os_makedirs (n # p) (Dir es) =
     (case os_makedirs p (case map_of es n of None \<Rightarrow> Dir [] | Some y \<Rightarrow> y) of
        Inl e \<Rightarrow> Inl e
      | Inr y' \<Rightarrow> Inr (Dir (update_entry n y' es)))"

text \<open>
  \<^verbatim>\<open>os.walk(d)\<close>, top-down, as the worker consumes it: the files of a directory
  in enumeration order, then each subdirectory in enumeration order. The result lists
  the files relative to \<open>d\<close>. Errors of the scan are ignored by \<^verbatim>\<open>os.walk\<close>, so
  a \<open>d\<close> that is missing or is a file yields nothing, and so does the empty path.
\<close>

fun file_names :: "(string \<times> node) list \<Rightarrow> string list" where
  "file_names [] = []"
| "file_names ((n, File c) # es) = n # file_names es"
| "file_names ((n, Dir ds) # es) = file_names es"

fun walk :: "node \<Rightarrow> path list" and walk_dirs :: "(string \<times> node) list \<Rightarrow> path list" where
  "walk (File c) = []"
| "walk (Dir es) = map (\<lambda>n. [n]) (file_names es) @ walk_dirs es"
| "walk_dirs [] = []"
| "walk_dirs ((n, x) # es) = map ((#) n) (walk x) @ walk_dirs es"

definition os_walk :: "node \<Rightarrow> path \<Rightarrow> path list" where
  "os_walk root d =
     (if d = [] then []
      else (case get_node root d of
              None \<Rightarrow> []
            | Some x \<Rightarrow> map ((@) d) (walk x)))"

text \<open>
  \<^verbatim>\<open>shutil.rmtree(d, ignore_errors=True)\<close>. The operating system may refuse to
  delete an entry (\<open>pinned\<close>: an open handle, a permission, an immutable flag); with
  \<^verbatim>\<open>ignore_errors\<close> the refusal is swallowed, the entry stays, and so does every
  directory above it.
\<close>

fun prune :: "(path \<Rightarrow> bool) \<Rightarrow> path \<Rightarrow> node \<Rightarrow> node option"
  and prune_entries :: "(path \<Rightarrow> bool) \<Rightarrow> path \<Rightarrow> (string \<times> node) list \<Rightarrow> (string \<times> node) list" where
  "prune pinned p (File c) = (if pinned p then Some (File c) else None)"
| "prune pinned p (Dir es) =
     (case prune_entries pinned p es of
        [] \<Rightarrow> (if pinned p then Some (Dir []) else None)
      | e # es' \<Rightarrow> Some (Dir (e # es')))"
| "prune_entries pinned p [] = []"
| "prune_entries pinned p ((n, x) # es) =
     (case prune pinned (p @ [n]) x of
        None \<Rightarrow> prune_entries pinned p es
      | Some x' \<Rightarrow> (n, x') # prune_entries pinned p es)"

definition rmtree_ignore_errors :: "(path \<Rightarrow> bool) \<Rightarrow> path \<Rightarrow> node \<Rightarrow> node" where
  "rmtree_ignore_errors pinned d root =
     (case alter d (\<lambda>old. case old of
               None \<Rightarrow> Inl FileNotFoundError
             | Some (File c) \<Rightarrow> Inl NotADirectoryError
             | Some (Dir es) \<Rightarrow> Inr (prune pinned d (Dir es))) root of
        Inl e \<Rightarrow> root
      | Inr root' \<Rightarrow> root')"

section \<open>The environment and the state of the process\<close>

text \<open>
  What the program takes from its libraries and from outside is collected in \<open>env\<close>:
  the remote store (the reply to the latest request, given all requests sent so far;
  a reply is a response or an exception of \<^verbatim>\<open>requests\<close>), \<^verbatim>\<open>base64.b64encode\<close>,
  the token of the environment, \<^verbatim>\<open>bcrypt.checkpw\<close>, the parser of \<^verbatim>\<open>zipfile\<close>
  (\<open>None\<close>: not an archive; a member is a name with its data, or \<open>None\<close> for a
  directory member), the deletions the operating system refuses, and \<^verbatim>\<open>teams.json\<close>.
\<close>

record request =
  req_method :: string
  req_url :: string
  req_authorization :: string
  req_json :: "(string \<times> jval) list option"

record response =
  status_code :: int
  body_text :: string
  body_json :: "jval option"

datatype reply = Raises exn | Responds response

record env =
  requests_send :: "request list \<Rightarrow> reply"
  b64encode :: "string \<Rightarrow> string"
  github_token :: "string option"
  checkpw :: "string \<Rightarrow> string \<Rightarrow> bool"
  zip_parse :: "string \<Rightarrow> (string \<times> string option) list option"
  pinned :: "path \<Rightarrow> bool"
  teams :: "string \<rightharpoonup> string"

type_synonym event = "string \<times> jval"

record meta =
  m_total :: nat
  m_current :: nat
  m_team :: string

text \<open>
  The state: the dictionaries of the module, the content of \<^verbatim>\<open>uploads_state.json\<close>,
  the working directory, the threads started so far and the requests sent to the remote
  store. A \<^verbatim>\<open>queue.Queue\<close> is an object: \<open>upload_queues\<close> maps an upload id to the
  address of its queue and \<open>queue_store\<close> holds the content of every queue.
\<close>

record world =
  upload_state :: "string \<rightharpoonup> bool"
  state_file :: "string \<rightharpoonup> bool"
  upload_queues :: "string \<rightharpoonup> nat"
  queue_store :: "nat \<Rightarrow> event list"
  next_queue :: nat
  upload_meta :: "string \<rightharpoonup> meta"
  cwd :: node
  threads :: "(string \<times> string \<times> string) list"
  sent :: "request list"

text \<open>
  \<^verbatim>\<open>save_upload_state\<close> writes the whole of \<^verbatim>\<open>upload_state\<close> to the file; \<^verbatim>\<open>q.put\<close>
  appends to a queue, which is unbounded and never blocks.
\<close>

definition save_upload_state :: "world \<Rightarrow> world" where
  "save_upload_state w = w\<lparr>state_file := upload_state w\<rparr>"

definition q_put :: "nat \<Rightarrow> event \<Rightarrow> world \<Rightarrow> world" where
  "q_put q ev w = w\<lparr>queue_store := (queue_store w)(q := queue_store w q @ [ev])\<rparr>"

section \<open>GitHub upload helper\<close>

definition GITHUB_REPO :: string where
  "GITHUB_REPO = ''Manu-Raj/Test''"

definition requests_call :: "env \<Rightarrow> request \<Rightarrow> world \<Rightarrow> reply \<times> world" where
  "requests_call E r w = (let log = sent w @ [r] in (requests_send E log, w\<lparr>sent := log\<rparr>))"

definition github_upload ::
  "env \<Rightarrow> path \<Rightarrow> string \<Rightarrow> world \<Rightarrow> (exn + bool \<times> int \<times> string) \<times> world" where
  "github_upload E local_file_path github_repo_path w =
     (let url = ''https://api.github.com/repos/'' @ GITHUB_REPO @ ''/contents/'' @ github_repo_path
      in case read_file (cwd w) local_file_path of
        Inl e \<Rightarrow> (Inl e, w)
      | Inr bytes \<Rightarrow>
         (let content = b64encode E bytes;
              headers = ''Bearer '' @ (case github_token E of None \<Rightarrow> ''None'' | Some t \<Rightarrow> t);
              (get_rep, w1) = requests_call E
                 \<lparr>req_method = ''GET'', req_url = url, req_authorization = headers,
                  req_json = None\<rparr> w
          in case get_rep of
            Raises e \<Rightarrow> (Inl e, w1)
          | Responds get_res \<Rightarrow>
             (case (if status_code get_res = 200
                    then (case body_json get_res of
                            None \<Rightarrow> Inl JSONDecodeError
                          | Some j \<Rightarrow> subscript j ''sha'')
                    else Inr JNull) of
                Inl e \<Rightarrow> (Inl e, w1)
              | Inr sha \<Rightarrow>
                 (let payload = [(''message'', JStr (''Upload '' @ github_repo_path)),
                                 (''content'', JStr content)]
                                @ (if truthy sha then [(''sha'', sha)] else []);
                      (put_rep, w2) = requests_call E
                         \<lparr>req_method = ''PUT'', req_url = url, req_authorization = headers,
                          req_json = Some payload\<rparr> w1
                  in case put_rep of
                    Raises e \<Rightarrow> (Inl e, w2)
                  | Responds put_res \<Rightarrow>
                     (Inr (status_code put_res = 200 \<or> status_code put_res = 201,
                           status_code put_res, body_text put_res), w2)))))"

text \<open>
  \<^verbatim>\<open>os.path.relpath(path, start)\<close> for a \<open>path\<close> below \<open>start\<close>, which is where the
  worker uses it (on the files found by the walk of \<open>start\<close>), with every backslash
  replaced by a slash.
\<close>

definition safe_relpath :: "path \<Rightarrow> path \<Rightarrow> string" where
  "safe_relpath p start =
     map (\<lambda>c. if c = CHR 0x5C then CHR ''/'' else c) (join_path (drop (length start) p))"

section \<open>SSE upload processing\<close>

text \<open>
  An event is the pair of its name and its data. \<^verbatim>\<open>json.dumps\<close> renders the data as
  text; the model keeps the value that is rendered.
\<close>

definition json_event :: "string \<Rightarrow> jval \<Rightarrow> event" where
  "json_event event data = (event, data)"

text \<open>
  One iteration of the loop of \<^verbatim>\<open>process_upload\<close>. Besides the state it returns what
  happened: the exception that leaves the loop, or the triple \<^verbatim>\<open>github_upload\<close>
  returned.
\<close>

definition upload_file ::
  "env \<Rightarrow> nat \<Rightarrow> string \<Rightarrow> string \<Rightarrow> string \<Rightarrow> nat \<Rightarrow> nat \<times> path \<Rightarrow> world
     \<Rightarrow> (exn + bool \<times> int \<times> string) \<times> world" where
  "upload_file E q upload_id team temp_dir total_n ifp w =
     (let i = fst ifp; file_path = snd ifp;
          rel = safe_relpath file_path (split_path temp_dir);
          gh_path = ''submissions/'' @ team @ ''/'' @ rel;
          w1 = q_put q (json_event ''upload_start''
                 (JObj [(''file'', JStr gh_path), (''index'', JNum (int i)),
                        (''total'', JNum (int total_n))])) w;
          (r, w2) = github_upload E file_path gh_path w1
      in case r of
        Inl e \<Rightarrow> (Inl e, w2)
      | Inr (ok, status, resp) \<Rightarrow>
         (let w3 = (if ok
                    then q_put q (json_event ''upload_done''
                           (JObj [(''file'', JStr gh_path), (''status'', JNum status)])) w2
                    else q_put q (json_event ''upload_error''
                           (JObj [(''file'', JStr gh_path), (''status'', JNum status),
                                  (''response'', JStr resp)])) w2)
          in case upload_meta w3 upload_id of
            None \<Rightarrow> (Inl KeyError, w3)
          | Some m \<Rightarrow>
             (Inr (ok, status, resp),
              w3\<lparr>upload_meta := (upload_meta w3)(upload_id \<mapsto> m\<lparr>m_current := i\<rparr>)\<rparr>)))"

fun upload_loop ::
  "env \<Rightarrow> nat \<Rightarrow> string \<Rightarrow> string \<Rightarrow> string \<Rightarrow> nat \<Rightarrow> (nat \<times> path) list \<Rightarrow> world
     \<Rightarrow> exn option \<times> world" where
  "upload_loop E q upload_id team temp_dir total_n [] w = (None, w)"
| "upload_loop E q upload_id team temp_dir total_n (x # xs) w =
     (case upload_file E q upload_id team temp_dir total_n x w of
        (Inl e, w') \<Rightarrow> (Some e, w')
      | (Inr r, w') \<Rightarrow> upload_loop E q upload_id team temp_dir total_n xs w')"

text \<open>The \<^verbatim>\<open>try\<close> block of \<^verbatim>\<open>process_upload\<close>.\<close>

definition try_block :: "env \<Rightarrow> nat \<Rightarrow> string \<Rightarrow> string \<Rightarrow> string \<Rightarrow> world \<Rightarrow> exn option \<times> world" where
  "try_block E q upload_id team temp_dir w =
     (let all_files = os_walk (cwd w) (split_path temp_dir);
          total_n = length all_files;
          w1 = w\<lparr>upload_meta := (upload_meta w)(upload_id \<mapsto>
                  \<lparr>m_total = total_n, m_current = 0, m_team = team\<rparr>)\<rparr>;
          w2 = q_put q (json_event ''info'' (JStr (str_nat total_n @ '' files to upload.''))) w1;
          (r, w3) = upload_loop E q upload_id team temp_dir total_n
                      (zip [1..<Suc total_n] all_files) w2
      in case r of
        Some e \<Rightarrow> (Some e, w3)
      | None \<Rightarrow> (None, q_put q (json_event ''finished'' (JStr ''All uploads completed.'')) w3))"

text \<open>The \<^verbatim>\<open>finally\<close> block: the sleep changes nothing in the state.\<close>

definition finally_block :: "env \<Rightarrow> nat \<Rightarrow> string \<Rightarrow> world \<Rightarrow> world" where
  "finally_block E q temp_dir w =
     (let w1 = w\<lparr>cwd := rmtree_ignore_errors (pinned E) (split_path temp_dir) (cwd w)\<rparr>
      in q_put q (json_event ''closed'' (JStr ''Upload thread ended.'')) w1)"

text \<open>
  The worker returns the exception that ends the thread, if any, and the state it
  leaves. Without a queue for \<open>upload_id\<close> it returns before the \<^verbatim>\<open>try\<close>.
\<close>

definition process_upload :: "env \<Rightarrow> string \<Rightarrow> string \<Rightarrow> string \<Rightarrow> world \<Rightarrow> exn option \<times> world" where
  "process_upload E upload_id team temp_dir w =
     (case upload_queues w upload_id of
        None \<Rightarrow> (None, w)
      | Some q \<Rightarrow>
         (let (r, w1) = try_block E q upload_id team temp_dir w
          in (r, finally_block E q temp_dir w1)))"


section \<open>Routes\<close>

text \<open>
  The Flask session is a cookie the client sends with each request and receives back:
  a handler takes it as an argument and returns the new one. An exception that leaves a
  handler is answered by Flask with an error status (\<open>Failure\<close>).
\<close>

record session =
  s_team :: "string option"
  s_admin :: bool

definition no_session :: session where
  "no_session = \<lparr>s_team = None, s_admin = False\<rparr>"

datatype http =
    Render string "string option"
  | Redirect string
  | Status int string
  | EventStream nat
  | Failure exn

definition verify ::
  "env \<Rightarrow> session \<Rightarrow> string \<Rightarrow> (string \<rightharpoonup> string) \<Rightarrow> world \<Rightarrow> http \<times> session" where
  "verify E sess method form w =
     (if method = ''POST'' then
        (let pin = (case form ''pin'' of None \<Rightarrow> [] | Some p \<Rightarrow> p);
             stored_hash = (case form ''team'' of None \<Rightarrow> None | Some team \<Rightarrow> teams E team)
         in case (form ''team'', stored_hash) of
           (Some team, Some h) \<Rightarrow>
             (if h \<noteq> [] \<and> checkpw E pin h then
                (if team = ''VEGAVATH ADS'' then (Redirect ''admin_panel'', sess\<lparr>s_admin := True\<rparr>)
                 else if upload_state w team = Some True then
                   (Render ''verify.html''
                      (Some ''Your team already submitted. Contact admin to unlock.''), sess)
                 else (Redirect ''upload'', sess\<lparr>s_team := Some team\<rparr>))
              else (Render ''verify.html'' (Some ''Wrong PIN''), sess))
         | _ \<Rightarrow> (Render ''verify.html'' (Some ''Wrong PIN''), sess))
      else (Render ''verify.html'' None, sess))"

text \<open>
  \<^verbatim>\<open>ZipFile.extractall\<close>: members are extracted in archive order; \<^verbatim>\<open>zipfile\<close> drops
  empty, \<^verbatim>\<open>.\<close> and \<^verbatim>\<open>..\<close> components of a member name and creates the missing
  directories above a member. An exception stops the extraction and leaves what was
  extracted before it.
\<close>

definition sanitize :: "string \<Rightarrow> path" where
  "sanitize name = filter (\<lambda>c. c \<noteq> [] \<and> c \<noteq> ''.'' \<and> c \<noteq> ''..'') (split_on CHR ''/'' name)"

definition extract_member :: "path \<Rightarrow> string \<times> string option \<Rightarrow> node \<Rightarrow> exn option \<times> node" where
  "extract_member d m root =
     (let target = d @ sanitize (fst m)
      in case snd m of
        None \<Rightarrow> (case os_makedirs target root of
                   Inl e \<Rightarrow> (Some e, root)
                 | Inr root1 \<Rightarrow> (None, root1))
      | Some data \<Rightarrow>
          (case os_makedirs (butlast target) root of
             Inl e \<Rightarrow> (Some e, root)
           | Inr root1 \<Rightarrow>
               (case write_file target data root1 of
                  Inl e \<Rightarrow> (Some e, root1)
                | Inr root2 \<Rightarrow> (None, root2))))"

fun extractall :: "path \<Rightarrow> (string \<times> string option) list \<Rightarrow> node \<Rightarrow> exn option \<times> node" where
  "extractall d [] root = (None, root)"
| "extractall d (m # ms) root =
     (case extract_member d m root of
        (Some e, root1) \<Rightarrow> (Some e, root1)
      | (None, root1) \<Rightarrow> extractall d ms root1)"

text \<open>
  \<^verbatim>\<open>/upload\<close>. \<open>upload_id\<close> is the value \<^verbatim>\<open>uuid.uuid4()\<close> returns in this request and
  \<open>file\<close> the content of the part \<^verbatim>\<open>file\<close> of the form (\<open>None\<close>: the part is
  missing). Starting the thread appends the arguments of \<^verbatim>\<open>process_upload\<close> to
  \<open>threads\<close>; the worker itself runs later, as \<open>process_upload\<close> on the state of
  that moment.
\<close>

definition upload ::
  "env \<Rightarrow> session \<Rightarrow> string \<Rightarrow> string \<Rightarrow> string option \<Rightarrow> world \<Rightarrow> http \<times> session \<times> world" where
  "upload E sess method upload_id file w =
     (case s_team sess of
        None \<Rightarrow> (Redirect ''verify'', sess, w)
      | Some team \<Rightarrow>
         if method = ''POST'' then
           (let temp_dir = ''temp_'' @ team @ ''_'' @ upload_id
            in case os_makedirs (split_path temp_dir) (cwd w) of
              Inl e \<Rightarrow> (Failure e, sess, w)
            | Inr c1 \<Rightarrow>
               (case file of
                  None \<Rightarrow> (Failure BadRequestKeyError, sess, w\<lparr>cwd := c1\<rparr>)
                | Some bytes \<Rightarrow>
                   (let zip_path = split_path temp_dir @ [''sub.zip'']
                    in case write_file zip_path bytes c1 of
                      Inl e \<Rightarrow> (Failure e, sess, w\<lparr>cwd := c1\<rparr>)
                    | Inr c2 \<Rightarrow>
                       (case zip_parse E bytes of
                          None \<Rightarrow> (Failure BadZipFile, sess, w\<lparr>cwd := c2\<rparr>)
                        | Some members \<Rightarrow>
                           (case extractall (split_path temp_dir) members c2 of
                              (Some e, c3) \<Rightarrow> (Failure e, sess, w\<lparr>cwd := c3\<rparr>)
                            | (None, c3) \<Rightarrow>
                               (case os_remove zip_path c3 of
                                  Inl e \<Rightarrow> (Failure e, sess, w\<lparr>cwd := c3\<rparr>)
                                | Inr c4 \<Rightarrow>
                                   (let w1 = w\<lparr>cwd := c4,
                                               upload_state := (upload_state w)(team \<mapsto> True)\<rparr>;
                                        w2 = save_upload_state w1;
                                        q = next_queue w2;
                                        w3 = w2\<lparr>queue_store := (queue_store w2)(q := []),
                                                next_queue := Suc q\<rparr>;
                                        w4 = w3\<lparr>upload_queues := (upload_queues w3)(upload_id \<mapsto> q)\<rparr>;
                                        w5 = w4\<lparr>threads := threads w4 @ [(upload_id, team, temp_dir)]\<rparr>
                                    in (Redirect (''success?upload_id='' @ upload_id),
                                        no_session, w5))))))))
         else (Render ''upload.html'' None, sess, w))"

definition success :: "string option \<Rightarrow> http" where
  "success upload_id = Render ''success.html'' None"

text \<open>
  \<^verbatim>\<open>/events/<upload_id>\<close> answers 404 or with a stream over the queue of the upload.
  The generator of the stream takes events from the queue until it has yielded
  \<^verbatim>\<open>closed\<close>. \<open>stream\<close> runs it on the content of the queue while nothing is put: it
  returns what is yielded and whether the generator has returned (\<open>True\<close>) or is
  waiting in \<^verbatim>\<open>q.get()\<close> on an empty queue (\<open>False\<close>). A yielded chunk is kept as the
  event it renders.
\<close>

definition events :: "string \<Rightarrow> world \<Rightarrow> http" where
  "events upload_id w =
     (case upload_queues w upload_id of
        None \<Rightarrow> Status 404 ''Invalid''
      | Some q \<Rightarrow> EventStream q)"

fun stream :: "event list \<Rightarrow> event list \<times> bool" where
  "stream [] = ([], False)"
| "stream (ev # rest) =
     (if fst ev = ''closed'' then ([ev], True)
      else (case stream rest of (ys, b) \<Rightarrow> (ev # ys, b)))"

definition run_stream :: "nat \<Rightarrow> world \<Rightarrow> (event list \<times> bool) \<times> world" where
  "run_stream q w =
     (case stream (queue_store w q) of
        (ys, b) \<Rightarrow>
          ((ys, b), w\<lparr>queue_store := (queue_store w)(q := drop (length ys) (queue_store w q))\<rparr>))"

section \<open>Admin\<close>

definition admin_panel :: "session \<Rightarrow> world \<Rightarrow> http" where
  "admin_panel sess w =
     (if \<not> s_admin sess then Redirect ''verify'' else Render ''admin.html'' None)"

definition reset_team :: "session \<Rightarrow> string \<Rightarrow> world \<Rightarrow> http \<times> world" where
  "reset_team sess team w =
     (if \<not> s_admin sess then (Redirect ''verify'', w)
      else (Redirect ''admin_panel'',
            save_upload_state (w\<lparr>upload_state := (upload_state w)(team \<mapsto> False)\<rparr>)))"

section \<open>Everything that can happen to the state\<close>

text \<open>
  One operation of the process: a request to one of the routes, a consumer of a stream
  taking what its queue holds, or a run of a worker.
\<close>

datatype operation =
    DoVerify session string "string \<rightharpoonup> string"
  | DoUpload session string string "string option"
  | DoSuccess "string option"
  | DoEvents string
  | DoStream nat
  | DoAdminPanel session
  | DoResetTeam session string
  | DoWorker string string string

fun step :: "env \<Rightarrow> operation \<Rightarrow> world \<Rightarrow> world" where
  "step E (DoVerify sess method form) w = w"
| "step E (DoUpload sess method upload_id file) w = snd (snd (upload E sess method upload_id file w))"
| "step E (DoSuccess upload_id) w = w"
| "step E (DoEvents upload_id) w = w"
| "step E (DoStream q) w = snd (run_stream q w)"
| "step E (DoAdminPanel sess) w = w"
| "step E (DoResetTeam sess team) w = snd (reset_team sess team w)"
| "step E (DoWorker upload_id team temp_dir) w = snd (process_upload E upload_id team temp_dir w)"

fun run :: "env \<Rightarrow> operation list \<Rightarrow> world \<Rightarrow> world" where
  "run E [] w = w"
| "run E (x # xs) w = run E xs (step E x w)"


section \<open>What the specification says of the worker\<close>

text \<open>
  The events of section 6 of the specification, the remote path of section 4.4 and the
  sequence of events section 8 requires of a submission with the files \<open>files\<close>: one
  \<open>info\<close>, then for the file of index \<open>i\<close> an \<open>upload_start\<close> immediately followed
  by an \<open>upload_done\<close> or an \<open>upload_error\<close> of that file, then one \<open>finished\<close>, then
  one \<open>closed\<close>, and nothing else.
\<close>

definition remote_path :: "string \<Rightarrow> string \<Rightarrow> path \<Rightarrow> string" where
  "remote_path owner temp_dir file_path =
     ''submissions/'' @ owner @ ''/'' @ safe_relpath file_path (split_path temp_dir)"

definition upload_start_event :: "string \<Rightarrow> nat \<Rightarrow> nat \<Rightarrow> event" where
  "upload_start_event f i n =
     (''upload_start'', JObj [(''file'', JStr f), (''index'', JNum (int i)), (''total'', JNum (int n))])"

definition upload_done_event :: "string \<Rightarrow> int \<Rightarrow> event" where
  "upload_done_event f s = (''upload_done'', JObj [(''file'', JStr f), (''status'', JNum s)])"

definition upload_error_event :: "string \<Rightarrow> int \<Rightarrow> string \<Rightarrow> event" where
  "upload_error_event f s r =
     (''upload_error'', JObj [(''file'', JStr f), (''status'', JNum s), (''response'', JStr r)])"

definition outcome_event :: "string \<Rightarrow> bool \<times> int \<times> string \<Rightarrow> event" where
  "outcome_event f r = (case r of (ok, s, resp) \<Rightarrow>
      if ok then upload_done_event f s else upload_error_event f s resp)"

definition is_outcome :: "string \<Rightarrow> event \<Rightarrow> bool" where
  "is_outcome f e = (case snd e of
       JObj kv \<Rightarrow> (case map_of kv ''status'' of
          Some (JNum s) \<Rightarrow>
            e = upload_done_event f s \<or>
            (case map_of kv ''response'' of
               Some (JStr r) \<Rightarrow> e = upload_error_event f s r
             | _ \<Rightarrow> False)
        | _ \<Rightarrow> False)
     | _ \<Rightarrow> False)"

fun file_pairs :: "nat \<Rightarrow> nat \<Rightarrow> string list \<Rightarrow> event list \<Rightarrow> bool" where
  "file_pairs n i [] evs =
     (case evs of [e1, e2] \<Rightarrow> fst e1 = ''finished'' \<and> fst e2 = ''closed'' | _ \<Rightarrow> False)"
| "file_pairs n i (f # files) evs =
     (case evs of
        e1 # e2 # rest \<Rightarrow>
          e1 = upload_start_event f i n \<and> is_outcome f e2 \<and> file_pairs n (Suc i) files rest
      | _ \<Rightarrow> False)"

definition worker_protocol :: "string list \<Rightarrow> event list \<Rightarrow> bool" where
  "worker_protocol files evs =
     (case evs of [] \<Rightarrow> False
      | e # rest \<Rightarrow> fst e = ''info'' \<and> file_pairs (length files) 1 files rest)"

definition info_event :: "nat \<Rightarrow> event" where
  "info_event n = (''info'', JStr (str_nat n @ '' files to upload.''))"

definition finished_event :: event where
  "finished_event = (''finished'', JStr ''All uploads completed.'')"

definition closed_event :: event where
  "closed_event = (''closed'', JStr ''Upload thread ended.'')"


text \<open>
  What \<^verbatim>\<open>github_upload\<close> returned, file after file, in a run of the loop, up to and
  including the iteration that raised; \<open>worker_results\<close> is that list for a run of the
  worker.
\<close>

fun upsert_results ::
  "env \<Rightarrow> nat \<Rightarrow> string \<Rightarrow> string \<Rightarrow> string \<Rightarrow> nat \<Rightarrow> (nat \<times> path) list \<Rightarrow> world
     \<Rightarrow> (exn + bool \<times> int \<times> string) list" where
  "upsert_results E q upload_id team temp_dir total_n [] w = []"
| "upsert_results E q upload_id team temp_dir total_n (x # xs) w =
     (case upload_file E q upload_id team temp_dir total_n x w of
        (Inl e, w') \<Rightarrow> [Inl e]
      | (Inr r, w') \<Rightarrow> Inr r # upsert_results E q upload_id team temp_dir total_n xs w')"

definition worker_results ::
  "env \<Rightarrow> string \<Rightarrow> string \<Rightarrow> string \<Rightarrow> world \<Rightarrow> (exn + bool \<times> int \<times> string) list" where
  "worker_results E upload_id team temp_dir w =
     (case upload_queues w upload_id of
        None \<Rightarrow> []
      | Some q \<Rightarrow>
         (let all_files = os_walk (cwd w) (split_path temp_dir);
              total_n = length all_files;
              w1 = w\<lparr>upload_meta := (upload_meta w)(upload_id \<mapsto>
                      \<lparr>m_total = total_n, m_current = 0, m_team = team\<rparr>)\<rparr>;
              w2 = q_put q (json_event ''info'' (JStr (str_nat total_n @ '' files to upload.''))) w1
          in upsert_results E q upload_id team temp_dir total_n
               (zip [1..<Suc total_n] all_files) w2))"

text \<open>Auxiliary notions of the proofs.\<close>

definition after_info :: "nat \<Rightarrow> string \<Rightarrow> string \<Rightarrow> string \<Rightarrow> world \<Rightarrow> world" where
  "after_info q uid team temp w =
     q_put q (info_event (length (os_walk (cwd w) (split_path temp))))
       (w\<lparr>upload_meta := (upload_meta w)(uid \<mapsto>
            \<lparr>m_total = length (os_walk (cwd w) (split_path temp)), m_current = 0,
             m_team = team\<rparr>)\<rparr>)"


definition file_kinds :: "string set" where
  "file_kinds = {''upload_start'', ''upload_done'', ''upload_error''}"

definition appended :: "nat \<Rightarrow> world \<Rightarrow> world \<Rightarrow> event list \<Rightarrow> bool" where
  "appended q w w' evs = (queue_store w' = (queue_store w)(q := queue_store w q @ evs)
     \<and> cwd w' = cwd w \<and> upload_queues w' = upload_queues w
     \<and> next_queue w' = next_queue w)"

definition same_but_sent :: "world \<Rightarrow> world \<Rightarrow> bool" where
  "same_but_sent w w' = (queue_store w' = queue_store w \<and> upload_queues w' = upload_queues w
     \<and> upload_meta w' = upload_meta w \<and> cwd w' = cwd w \<and> threads w' = threads w
     \<and> upload_state w' = upload_state w \<and> state_file w' = state_file w
     \<and> next_queue w' = next_queue w)"






text \<open>The state \<^verbatim>\<open>/upload\<close> leaves when it accepts a submission, before and after the
  thread is started.\<close>

definition staging_dir :: "string \<Rightarrow> string \<Rightarrow> string" where
  "staging_dir team upload_id = ''temp_'' @ team @ ''_'' @ upload_id"

definition registered :: "string \<Rightarrow> string \<Rightarrow> node \<Rightarrow> world \<Rightarrow> world" where
  "registered team upload_id c w =
     w\<lparr>cwd := c, upload_state := (upload_state w)(team \<mapsto> True),
       state_file := (upload_state w)(team \<mapsto> True),
       queue_store := (queue_store w)(next_queue w := []),
       next_queue := Suc (next_queue w),
       upload_queues := (upload_queues w)(upload_id \<mapsto> next_queue w)\<rparr>"

definition launched :: "string \<Rightarrow> string \<Rightarrow> world \<Rightarrow> world" where
  "launched team upload_id w =
     w\<lparr>threads := threads w @ [(upload_id, team, staging_dir team upload_id)]\<rparr>"

text \<open>
  The registry is in order when it maps different upload ids to different queues, all
  of them created (\<open>upload\<close> creates a queue for each id it registers, so every state
  reached from an empty registry is in order). \<open>is_worker_of\<close> recognises a run of the
  worker of an upload id.
\<close>

definition registry_ok :: "world \<Rightarrow> bool" where
  "registry_ok w =
     ((\<forall>u q. upload_queues w u = Some q \<longrightarrow> q < next_queue w)
      \<and> (\<forall>u u' q. upload_queues w u = Some q \<longrightarrow> upload_queues w u' = Some q \<longrightarrow> u = u'))"

fun is_worker_of :: "string \<Rightarrow> operation \<Rightarrow> bool" where
  "is_worker_of upload_id (DoWorker u team temp_dir) = (u = upload_id)"
| "is_worker_of upload_id _ = False"

definition waiting :: "string \<Rightarrow> world \<Rightarrow> bool" where
  "waiting uid w = (registry_ok w \<and> (\<exists>q. upload_queues w uid = Some q \<and> queue_store w q = []))"




section \<open>Concrete environments and states\<close>

text \<open>
  Small instances on which the theorems below are run. The remote store of
  \<open>net_created\<close> knows no path and accepts every write; \<open>net_rejecting\<close> knows no path and
  rejects every write; \<open>net_down\<close> cannot be reached; \<open>net_fail_then_down\<close> rejects the first write and cannot be reached
  afterwards; \<open>net_empty_sha\<close> answers a read with status 200 and an empty \<^verbatim>\<open>sha\<close>.
\<close>

definition plain_response :: "int \<Rightarrow> response" where
  "plain_response s = \<lparr>status_code = s, body_text = ''{}'', body_json = Some (JObj [])\<rparr>"

definition net_created :: "request list \<Rightarrow> reply" where
  "net_created log = (case rev log of
       [] \<Rightarrow> Raises ConnectionError
     | r # rs \<Rightarrow> Responds (plain_response (if req_method r = ''GET'' then 404 else 201)))"

definition net_rejecting :: "request list \<Rightarrow> reply" where
  "net_rejecting log = (case rev log of
       [] \<Rightarrow> Raises ConnectionError
     | r # rs \<Rightarrow>
        (if req_method r = ''GET'' then Responds (plain_response 404)
         else Responds \<lparr>status_code = 422, body_text = ''Unprocessable'', body_json = None\<rparr>))"

definition net_down :: "request list \<Rightarrow> reply" where
  "net_down log = Raises ConnectionError"

definition net_fail_then_down :: "request list \<Rightarrow> reply" where
  "net_fail_then_down log =
     (if length log = 1 then Responds (plain_response 404)
      else if length log = 2 then
        Responds \<lparr>status_code = 500, body_text = ''Server Error'', body_json = None\<rparr>
      else Raises ConnectionError)"


definition example_zip :: "string \<Rightarrow> (string \<times> string option) list option" where
  "example_zip bytes =
     (if bytes = ''PK-a'' then Some [(''a.txt'', Some ''A'')]
      else if bytes = ''PK-abd'' then
        Some [(''a.txt'', Some ''A''), (''b/c.txt'', Some ''C''), (''d.bin'', Some ''D'')]
      else None)"

definition example_env :: "(request list \<Rightarrow> reply) \<Rightarrow> env" where
  "example_env net =
     \<lparr>requests_send = net, b64encode = (\<lambda>s. s), github_token = Some ''token'',
      checkpw = (\<lambda>pin h. h = ''hash-of-'' @ pin), zip_parse = example_zip,
      pinned = (\<lambda>p. False), teams = [''alpha'' \<mapsto> ''hash-of-1234'']\<rparr>"

definition start_world :: world where
  "start_world =
     \<lparr>upload_state = Map.empty, state_file = Map.empty, upload_queues = Map.empty,
      queue_store = (\<lambda>q. []), next_queue = 0, upload_meta = Map.empty, cwd = Dir [],
      threads = [], sent = []\<rparr>"

text \<open>The state after team \<open>alpha\<close> has submitted, as upload \<open>u1\<close>, an archive of \<open>es\<close>.\<close>

definition staged_world :: "(string \<times> node) list \<Rightarrow> world" where
  "staged_world es =
     \<lparr>upload_state = [''alpha'' \<mapsto> True], state_file = [''alpha'' \<mapsto> True],
      upload_queues = [''u1'' \<mapsto> 0], queue_store = (\<lambda>q. []), next_queue = 1,
      upload_meta = Map.empty, cwd = Dir [(''temp_alpha_u1'', Dir es)],
      threads = [(''u1'', ''alpha'', ''temp_alpha_u1'')], sent = []\<rparr>"

definition three_files :: "(string \<times> node) list" where
  "three_files = [(''a.txt'', File ''A''), (''b'', Dir [(''c.txt'', File ''C'')]), (''d.bin'', File ''D'')]"


text \<open>The session of a member of team \<open>alpha\<close> after \<^verbatim>\<open>/\<close> has accepted the PIN.\<close>

definition alpha_session :: session where
  "alpha_session = \<lparr>s_team = Some ''alpha'', s_admin = False\<rparr>"

text \<open>The form team \<open>alpha\<close> posts to \<^verbatim>\<open>/\<close>, and the state after its first upload.\<close>

definition alpha_form :: "string \<rightharpoonup> string" where
  "alpha_form = [''team'' \<mapsto> ''alpha'', ''pin'' \<mapsto> ''1234'']"

definition after_first_upload :: world where
  "after_first_upload =
     snd (snd (upload (example_env net_created) alpha_session ''POST'' ''u1'' (Some ''PK-a'')
       start_world))"

text \<open>
  The state after the worker of \<open>u1\<close> has relayed one file, and what another
  submission of the team does afterwards.
\<close>

definition relayed_world :: world where
  "relayed_world =
     snd (process_upload (example_env net_created) ''u1'' ''alpha'' ''temp_alpha_u1''
            (staged_world [(''a.txt'', File ''A'')]))"

definition later_operations :: "operation list" where
  "later_operations =
     [DoUpload alpha_session ''POST'' ''u2'' (Some ''PK-a''),
      DoWorker ''u2'' ''alpha'' ''temp_alpha_u2'',
      DoStream 1, DoResetTeam no_session ''alpha'', DoEvents ''u1'']"


section \<open>The worker: lemmas\<close>

lemma is_outcome_outcome_event: "is_outcome f (outcome_event f r)"
  by (cases r) (simp add: is_outcome_def outcome_event_def upload_done_event_def upload_error_event_def)

lemma q_put_simps:
  "queue_store (q_put q ev w) = (queue_store w)(q := queue_store w q @ [ev])"
  "upload_queues (q_put q ev w) = upload_queues w"
  "upload_meta (q_put q ev w) = upload_meta w"
  "cwd (q_put q ev w) = cwd w"
  "sent (q_put q ev w) = sent w"
  "threads (q_put q ev w) = threads w"
  "upload_state (q_put q ev w) = upload_state w"
  "state_file (q_put q ev w) = state_file w"
  "next_queue (q_put q ev w) = next_queue w"
  by (simp_all add: q_put_def)

lemma requests_call_fields:
  "queue_store (snd (requests_call E r w)) = queue_store w"
  "upload_queues (snd (requests_call E r w)) = upload_queues w"
  "upload_meta (snd (requests_call E r w)) = upload_meta w"
  "cwd (snd (requests_call E r w)) = cwd w"
  "threads (snd (requests_call E r w)) = threads w"
  "upload_state (snd (requests_call E r w)) = upload_state w"
  "state_file (snd (requests_call E r w)) = state_file w"
  "next_queue (snd (requests_call E r w)) = next_queue w"
  by (simp_all add: requests_call_def Let_def)

lemma same_but_sent_refl: "same_but_sent w w"
  by (simp add: same_but_sent_def)

lemma same_but_sent_call: "same_but_sent w w1 \<Longrightarrow> same_but_sent w (snd (requests_call E r w1))"
  by (simp add: same_but_sent_def requests_call_fields)

lemma github_upload_frame: "same_but_sent w (snd (github_upload E p g w))"
  unfolding github_upload_def Let_def
  by (simp add: same_but_sent_refl same_but_sent_call split_beta
      split: sum.split reply.split option.split)


lemma github_upload_fields:
  assumes "github_upload E p g w = (r, w')"
  shows "queue_store w' = queue_store w" "upload_queues w' = upload_queues w"
    "upload_meta w' = upload_meta w" "cwd w' = cwd w" "threads w' = threads w"
    "upload_state w' = upload_state w" "state_file w' = state_file w"
    "next_queue w' = next_queue w"
  using github_upload_frame [of w E p g] assms
  by (simp_all add: same_but_sent_def)

text \<open>One iteration: what it appends to the queue.\<close>

lemma appended_Nil: "appended q w w []"
  by (simp add: appended_def)

lemma appended_trans:
  "appended q w w1 evs \<Longrightarrow> appended q w1 w2 evs' \<Longrightarrow> appended q w w2 (evs @ evs')"
  by (simp add: appended_def)

lemma appended_q_put: "appended q w (q_put q ev w) [ev]"
  by (simp add: appended_def q_put_simps)

lemma appended_github_upload: "github_upload E p g w = (r, w') \<Longrightarrow> appended q w w' []"
  by (simp add: appended_def github_upload_fields)

lemma appended_meta: "appended q w (w\<lparr>upload_meta := m\<rparr>) []"
  by (simp add: appended_def)

lemma upload_file_unfold:
  "upload_file E q uid team temp n (i, fp) w =
     (case github_upload E fp (remote_path team temp fp)
             (q_put q (upload_start_event (remote_path team temp fp) i n) w) of
        (Inl e, w2) \<Rightarrow> (Inl e, w2)
      | (Inr res, w2) \<Rightarrow>
          (case upload_meta w2 uid of
             None \<Rightarrow> (Inl KeyError, q_put q (outcome_event (remote_path team temp fp) res) w2)
           | Some m \<Rightarrow> (Inr res, (q_put q (outcome_event (remote_path team temp fp) res) w2)
                \<lparr>upload_meta := (upload_meta w2)(uid \<mapsto> m\<lparr>m_current := i\<rparr>)\<rparr>)))"
  by (simp add: upload_file_def Let_def remote_path_def upload_start_event_def json_event_def
      outcome_event_def upload_done_event_def upload_error_event_def q_put_simps
      split: prod.split sum.split option.split)

lemma upload_file_cases:
  assumes "upload_file E q uid team temp n (i, fp) w = (r, w')"
  shows "\<exists>evs. appended q w w' evs \<and>
     (case r of
        Inr res \<Rightarrow> evs = [upload_start_event (remote_path team temp fp) i n,
                          outcome_event (remote_path team temp fp) res]
      | Inl e \<Rightarrow> evs = [upload_start_event (remote_path team temp fp) i n] \<or>
          (\<exists>res. evs = [upload_start_event (remote_path team temp fp) i n,
                          outcome_event (remote_path team temp fp) res]))"
proof -
  let ?g = "remote_path team temp fp"
  let ?s = "upload_start_event ?g i n"
  obtain r0 w2 where g: "github_upload E fp ?g (q_put q ?s w) = (r0, w2)"
    by (cases "github_upload E fp ?g (q_put q ?s w)") auto
  have a1: "appended q w w2 [?s]"
    using appended_trans [OF appended_q_put appended_github_upload [OF g]] by simp
  show ?thesis
  proof (cases r0)
    case (Inl e)
    with assms g have "r = Inl e" "w' = w2" by (simp_all add: upload_file_unfold)
    with a1 show ?thesis by auto
  next
    case (Inr res)
    let ?w3 = "q_put q (outcome_event ?g res) w2"
    have a3: "appended q w ?w3 [?s, outcome_event ?g res]"
      using appended_trans [OF a1 appended_q_put] by simp
    show ?thesis
    proof (cases "upload_meta w2 uid")
      case None
      with Inr assms g have "r = Inl KeyError" "w' = ?w3" by (simp_all add: upload_file_unfold)
      with a3 show ?thesis by (cases res) (simp, blast)
    next
      case (Some m)
      with Inr assms g have r: "r = Inr res"
        and w: "w' = ?w3\<lparr>upload_meta := (upload_meta w2)(uid \<mapsto> m\<lparr>m_current := i\<rparr>)\<rparr>"
        by (simp_all add: upload_file_unfold)
      have "appended q w w' ([?s, outcome_event ?g res] @ [])"
        unfolding w by (rule appended_trans [OF a3 appended_meta])
      with r show ?thesis by simp
    qed
  qed
qed


lemma upload_loop_normal:
  "upload_loop E q uid team temp n (zip [i..<i + length files] files) w = (None, w') \<Longrightarrow>
     \<exists>evs. appended q w w' evs \<and>
       (\<forall>rest. file_pairs n i (map (remote_path team temp) files) (evs @ rest)
                = file_pairs n 0 [] rest)"
proof (induction files arbitrary: i w)
  case Nil
  then have "w' = w" by simp
  then show ?case using appended_Nil [of q w] by (intro exI [of _ "[]"]) simp
next
  case (Cons f files)
  obtain r w1 where u: "upload_file E q uid team temp n (i, f) w = (r, w1)"
    by (cases "upload_file E q uid team temp n (i, f) w") auto
  have z: "zip [i..<i + length (f # files)] (f # files)
      = (i, f) # zip [Suc i..<Suc i + length files] files"
    by (simp add: upt_conv_Cons del: upt_Suc)
  from Cons.prems [unfolded z] u obtain res where r: "r = Inr res"
    and l: "upload_loop E q uid team temp n (zip [Suc i..<Suc i + length files] files) w1 = (None, w')"
    by (cases r) simp_all
  from upload_file_cases [OF u] r
  have a1: "appended q w w1 [upload_start_event (remote_path team temp f) i n,
                             outcome_event (remote_path team temp f) res]"
    by simp
  from Cons.IH [OF l] obtain evs where a2: "appended q w1 w' evs"
    and p: "\<forall>rest. file_pairs n (Suc i) (map (remote_path team temp) files) (evs @ rest)
                = file_pairs n 0 [] rest"
    by blast
  have "appended q w w' ([upload_start_event (remote_path team temp f) i n,
                             outcome_event (remote_path team temp f) res] @ evs)"
    by (rule appended_trans [OF a1 a2])
  moreover have "\<forall>rest. file_pairs n i (map (remote_path team temp) (f # files))
        (([upload_start_event (remote_path team temp f) i n,
           outcome_event (remote_path team temp f) res] @ evs) @ rest) = file_pairs n 0 [] rest"
    using p by (simp add: is_outcome_outcome_event)
  ultimately show ?case by blast
qed


lemma outcome_event_kind: "fst (outcome_event g res) \<in> file_kinds"
  by (cases res) (simp add: outcome_event_def upload_done_event_def upload_error_event_def file_kinds_def)

lemma upload_start_event_kind: "fst (upload_start_event g i n) \<in> file_kinds"
  by (simp add: upload_start_event_def file_kinds_def)

lemma upload_file_any:
  assumes "upload_file E q uid team temp n x w = (r, w')"
  shows "\<exists>evs. appended q w w' evs \<and> (\<forall>e\<in>set evs. fst e \<in> file_kinds)"
proof -
  obtain i fp where x: "x = (i, fp)" by (cases x)
  from upload_file_cases [OF assms [unfolded x]] obtain evs where
    a: "appended q w w' evs" and
    c: "(case r of
        Inr res \<Rightarrow> evs = [upload_start_event (remote_path team temp fp) i n,
                          outcome_event (remote_path team temp fp) res]
      | Inl e \<Rightarrow> evs = [upload_start_event (remote_path team temp fp) i n] \<or>
          (\<exists>res. evs = [upload_start_event (remote_path team temp fp) i n,
                          outcome_event (remote_path team temp fp) res]))"
    by blast
  from c have "evs = [upload_start_event (remote_path team temp fp) i n] \<or>
          (\<exists>res. evs = [upload_start_event (remote_path team temp fp) i n,
                          outcome_event (remote_path team temp fp) res])"
    by (cases r) auto
  then have "\<forall>e\<in>set evs. fst e \<in> file_kinds"
    by (elim disjE exE) (simp_all add: outcome_event_kind upload_start_event_kind)
  with a show ?thesis by blast
qed

lemma upload_loop_any:
  "upload_loop E q uid team temp n xs w = (r, w') \<Longrightarrow>
     \<exists>evs. appended q w w' evs \<and> (\<forall>e\<in>set evs. fst e \<in> file_kinds)"
proof (induction xs arbitrary: w)
  case Nil
  then have "w' = w" by simp
  then show ?case using appended_Nil [of q w] by (intro exI [of _ "[]"]) simp
next
  case (Cons x xs)
  obtain r1 w1 where u: "upload_file E q uid team temp n x w = (r1, w1)"
    by (cases "upload_file E q uid team temp n x w") auto
  from upload_file_any [OF u] obtain evs1 where a1: "appended q w w1 evs1"
    and k1: "\<forall>e\<in>set evs1. fst e \<in> file_kinds" by blast
  show ?case
  proof (cases r1)
    case (Inl e)
    with Cons.prems u have "w' = w1" by simp
    with a1 k1 show ?thesis by blast
  next
    case (Inr res)
    with Cons.prems u have "upload_loop E q uid team temp n xs w1 = (r, w')" by simp
    from Cons.IH [OF this] obtain evs2 where a2: "appended q w1 w' evs2"
      and k2: "\<forall>e\<in>set evs2. fst e \<in> file_kinds" by blast
    from appended_trans [OF a1 a2] k1 k2 show ?thesis
      by (intro exI [of _ "evs1 @ evs2"]) auto
  qed
qed


lemma try_block_any:
  assumes "try_block E q uid team temp w = (r, w')"
  shows "\<exists>evs. appended q w w' (info_event (length (os_walk (cwd w) (split_path temp))) # evs)
     \<and> (\<forall>e\<in>set evs. fst e \<in> insert ''finished'' file_kinds)"
proof -
  let ?files = "os_walk (cwd w) (split_path temp)"
  let ?n = "length ?files"
  let ?w1 = "w\<lparr>upload_meta := (upload_meta w)(uid \<mapsto>
                  \<lparr>m_total = ?n, m_current = 0, m_team = team\<rparr>)\<rparr>"
  let ?w2 = "q_put q (info_event ?n) ?w1"
  obtain r3 w3 where l: "upload_loop E q uid team temp ?n (zip [1..<Suc ?n] ?files) ?w2 = (r3, w3)"
    by (cases "upload_loop E q uid team temp ?n (zip [1..<Suc ?n] ?files) ?w2") auto
  have a2: "appended q w ?w2 [info_event ?n]"
    using appended_trans [OF appended_meta appended_q_put] by simp
  from upload_loop_any [OF l] obtain evs where a3: "appended q ?w2 w3 evs"
    and k: "\<forall>e\<in>set evs. fst e \<in> file_kinds" by blast
  have a4: "appended q w w3 (info_event ?n # evs)"
    using appended_trans [OF a2 a3] by simp
  show ?thesis
  proof (cases r3)
    case None
    with assms l have "w' = q_put q finished_event w3"
      by (simp add: try_block_def Let_def info_event_def finished_event_def json_event_def)
    then have "appended q w w' (info_event ?n # (evs @ [finished_event]))"
      using appended_trans [OF a4 appended_q_put, of finished_event] by simp
    moreover have "\<forall>e\<in>set (evs @ [finished_event]). fst e \<in> insert ''finished'' file_kinds"
      using k by (auto simp: finished_event_def)
    ultimately show ?thesis by blast
  next
    case (Some e)
    with assms l have "w' = w3"
      by (simp add: try_block_def Let_def info_event_def finished_event_def json_event_def)
    with a4 k show ?thesis by auto
  qed
qed

lemma try_block_normal:
  assumes "try_block E q uid team temp w = (None, w')"
  shows "\<exists>evs. appended q w w' evs
     \<and> worker_protocol (map (remote_path team temp) (os_walk (cwd w) (split_path temp)))
          (evs @ [closed_event])"
proof -
  let ?files = "os_walk (cwd w) (split_path temp)"
  let ?n = "length ?files"
  let ?w1 = "w\<lparr>upload_meta := (upload_meta w)(uid \<mapsto>
                  \<lparr>m_total = ?n, m_current = 0, m_team = team\<rparr>)\<rparr>"
  let ?w2 = "q_put q (info_event ?n) ?w1"
  obtain r3 w3 where l: "upload_loop E q uid team temp ?n (zip [1..<Suc ?n] ?files) ?w2 = (r3, w3)"
    by (cases "upload_loop E q uid team temp ?n (zip [1..<Suc ?n] ?files) ?w2") auto
  from assms l have r3: "r3 = None" and w': "w' = q_put q finished_event w3"
    by (auto simp: try_block_def Let_def info_event_def finished_event_def json_event_def
        split: option.splits)
  have a2: "appended q w ?w2 [info_event ?n]"
    using appended_trans [OF appended_meta appended_q_put] by simp
  have "upload_loop E q uid team temp ?n (zip [1..<1 + length ?files] ?files) ?w2 = (None, w3)"
    using l r3 by simp
  from upload_loop_normal [OF this] obtain evs where a3: "appended q ?w2 w3 evs"
    and p: "\<forall>rest. file_pairs ?n 1 (map (remote_path team temp) ?files) (evs @ rest)
                = file_pairs ?n 0 [] rest" by blast
  have "appended q w w' ([info_event ?n] @ evs @ [finished_event])"
    unfolding w' by (rule appended_trans [OF a2 appended_trans [OF a3 appended_q_put]])
  moreover have "worker_protocol (map (remote_path team temp) ?files)
      (([info_event ?n] @ evs @ [finished_event]) @ [closed_event])"
    using p by (simp add: worker_protocol_def info_event_def finished_event_def closed_event_def)
  ultimately show ?thesis by blast
qed

lemma finally_block_queue:
  "queue_store (finally_block E q temp w) = (queue_store w)(q := queue_store w q @ [closed_event])"
  by (simp add: finally_block_def Let_def q_put_simps json_event_def closed_event_def)


lemma upload_loop_result_events:
  "k < length (upsert_results E q uid team temp n xs w) \<Longrightarrow>
   upsert_results E q uid team temp n xs w ! k = Inr res \<Longrightarrow>
   upload_loop E q uid team temp n xs w = (r, w') \<Longrightarrow>
   \<exists>pre post. appended q w w'
       (pre @ [upload_start_event (remote_path team temp (snd (xs ! k))) (fst (xs ! k)) n,
               outcome_event (remote_path team temp (snd (xs ! k))) res] @ post)
     \<and> length pre = 2 * k"
proof (induction xs arbitrary: k w)
  case Nil
  then show ?case by simp
next
  case (Cons x xs)
  obtain i fp where x: "x = (i, fp)" by (cases x)
  obtain r1 w1 where u: "upload_file E q uid team temp n (i, fp) w = (r1, w1)"
    by (cases "upload_file E q uid team temp n (i, fp) w") auto
  show ?case
  proof (cases r1)
    case (Inl e)
    with Cons.prems u x show ?thesis by simp
  next
    case (Inr res1)
    from upload_file_cases [OF u] Inr
    have a1: "appended q w w1 [upload_start_event (remote_path team temp fp) i n,
                               outcome_event (remote_path team temp fp) res1]"
      by simp
    from Cons.prems(3) u x Inr
    have l: "upload_loop E q uid team temp n xs w1 = (r, w')" by simp
    have rs: "upsert_results E q uid team temp n (x # xs) w
        = Inr res1 # upsert_results E q uid team temp n xs w1"
      using u x Inr by simp
    show ?thesis
    proof (cases k)
      case 0
      with Cons.prems(2) rs have "res = res1" by simp
      moreover from upload_loop_any [OF l] obtain evs where "appended q w1 w' evs" by blast
      ultimately have "appended q w w'
        ([] @ [upload_start_event (remote_path team temp fp) i n,
               outcome_event (remote_path team temp fp) res] @ evs)"
        using appended_trans [OF a1] by fastforce
      with 0 x show ?thesis by (intro exI [of _ "[]"] exI [of _ evs]) simp
    next
      case (Suc k')
      with Cons.prems(1,2) rs
      have "k' < length (upsert_results E q uid team temp n xs w1)"
        and "upsert_results E q uid team temp n xs w1 ! k' = Inr res" by simp_all
      from Cons.IH [OF this l] obtain pre post where
        a2: "appended q w1 w'
          (pre @ [upload_start_event (remote_path team temp (snd (xs ! k'))) (fst (xs ! k')) n,
                  outcome_event (remote_path team temp (snd (xs ! k'))) res] @ post)"
        and len: "length pre = 2 * k'" by blast
      let ?pre = "[upload_start_event (remote_path team temp fp) i n,
                   outcome_event (remote_path team temp fp) res1] @ pre"
      from appended_trans [OF a1 a2] have "appended q w w'
        (?pre @ [upload_start_event (remote_path team temp (snd (xs ! k'))) (fst (xs ! k')) n,
                  outcome_event (remote_path team temp (snd (xs ! k'))) res] @ post)"
        by simp
      moreover have "length ?pre = 2 * k" using len Suc by simp
      ultimately show ?thesis using Suc x by (intro exI [of _ ?pre] exI [of _ post]) simp
    qed
  qed
qed

lemma upsert_results_length: "length (upsert_results E q uid team temp n xs w) \<le> length xs"
proof (induction xs arbitrary: w)
  case Nil
  show ?case by simp
next
  case (Cons x xs)
  show ?case
    using Cons.IH
    by (auto split: prod.splits sum.splits intro: le_SucI)
qed


lemma appended_after_info:
  "appended q w (after_info q uid team temp w)
     [info_event (length (os_walk (cwd w) (split_path temp)))]"
  unfolding after_info_def
  using appended_trans [OF appended_meta appended_q_put] by simp

lemma try_block_loop:
  assumes "try_block E q uid team temp w = (r, w1)"
  shows "\<exists>w3. upload_loop E q uid team temp (length (os_walk (cwd w) (split_path temp)))
            (zip [1..<Suc (length (os_walk (cwd w) (split_path temp)))]
               (os_walk (cwd w) (split_path temp)))
            (after_info q uid team temp w) = (r, w3)
          \<and> w1 = (if r = None then q_put q finished_event w3 else w3)"
  using assms
  by (auto simp: try_block_def Let_def after_info_def info_event_def finished_event_def
      json_event_def split: prod.splits option.splits)

lemma worker_results_loop:
  assumes "upload_queues w uid = Some q"
  shows "worker_results E uid team temp w =
     upsert_results E q uid team temp (length (os_walk (cwd w) (split_path temp)))
       (zip [1..<Suc (length (os_walk (cwd w) (split_path temp)))]
          (os_walk (cwd w) (split_path temp)))
       (after_info q uid team temp w)"
  using assms
  by (simp add: worker_results_def Let_def after_info_def info_event_def json_event_def)

lemma appended_unique: "appended q w w' evs \<Longrightarrow> appended q w w' evs' \<Longrightarrow> evs = evs'"
  by (auto simp: appended_def dest: fun_cong [where x = q])



section \<open>GitHub upload helper: lemmas\<close>






section \<open>The working directory: lemmas\<close>

lemma map_of_update_entry:
  "map_of (update_entry n x es) m = (if m = n then Some x else map_of es m)"
  by (induction es) auto








lemma split_path_nonempty: "c \<noteq> CHR ''/'' \<Longrightarrow> split_path (c # cs) \<noteq> []"
  by (simp add: split_path_def split: list.split)


lemma try_block_upload_queues:
  "try_block E q uid team temp w = (r, w1) \<Longrightarrow> upload_queues w1 = upload_queues w"
  using try_block_any [of E q uid team temp w r w1] by (auto simp: appended_def)

lemma walk_nonempty:
  "[] \<notin> set (walk x)"
  "[] \<notin> set (walk_dirs es)"
  by (induction x and es rule: walk_walk_dirs.induct) auto

lemma file_names_subset: "set (file_names es) \<subseteq> fst ` set es"
  by (induction es rule: file_names.induct) auto

lemma single_in_walk_dirs: "[n] \<notin> set (walk_dirs es)"
proof (induction es)
  case Nil
  show ?case by simp
next
  case (Cons e es)
  obtain m x where e: "e = (m, x)" by (cases e)
  show ?case using Cons.IH walk_nonempty(1) [of x] by (auto simp: e)
qed

lemma single_in_walk: "[n] \<in> set (walk x) \<Longrightarrow> \<exists>es. x = Dir es \<and> n \<in> fst ` set es"
  using file_names_subset single_in_walk_dirs by (cases x) auto

lemma fst_delete_entry: "n \<notin> fst ` set (delete_entry n es)"
  by (auto simp: delete_entry_def)

lemma os_remove_parent:
  "os_remove (d @ [n]) root = Inr root' \<Longrightarrow>
     \<exists>es. get_node root' d = Some (Dir es) \<and> n \<notin> fst ` set es"
proof (induction d arbitrary: root root')
  case Nil
  then show ?case
    by (cases root) (auto simp: os_remove_def fst_delete_entry split: sum.splits option.splits node.splits)
next
  case (Cons m d)
  obtain k p where dn: "d @ [n] = k # p" by (cases "d @ [n]") auto
  from Cons.prems obtain es where root: "root = Dir es"
    by (cases root) (auto simp: os_remove_def)
  from Cons.prems root dn obtain y y' where y: "map_of es m = Some y"
    and a: "os_remove (d @ [n]) y = Inr y'" and r: "root' = Dir (update_entry m y' es)"
    by (auto simp: os_remove_def split: option.splits sum.splits)
  from Cons.IH [OF a] obtain es' where "get_node y' d = Some (Dir es')" "n \<notin> fst ` set es'"
    by blast
  then show ?case using r by (auto simp: map_of_update_entry)
qed


section \<open>The upload route: lemmas\<close>

lemma upload_accepted:
  assumes "upload E sess method upload_id file w = (Redirect r, s', w')"
    and "s_team sess = Some team"
  shows "\<exists>bytes c3 c4.
      method = ''POST'' \<and> file = Some bytes
    \<and> os_remove (split_path (staging_dir team upload_id) @ [''sub.zip'']) c3 = Inr c4
    \<and> w' = launched team upload_id (registered team upload_id c4 w)
    \<and> s' = no_session \<and> r = ''success?upload_id='' @ upload_id"
  using assms
  unfolding upload_def Let_def staging_dir_def launched_def registered_def save_upload_state_def
  by (auto split: option.splits sum.splits prod.splits if_splits)

lemma upload_failure:
  assumes "upload E sess method upload_id file w = (Failure e, s', w')"
  shows "s' = sess \<and> (\<exists>c. w' = w\<lparr>cwd := c\<rparr>)"
proof -
  have "\<exists>c. w = w\<lparr>cwd := c\<rparr>" by (rule exI [of _ "cwd w"]) simp
  with assms show ?thesis
    unfolding upload_def Let_def
    by (auto split: option.splits sum.splits prod.splits if_splits)
qed








lemma staging_dir_nonempty: "split_path (staging_dir team upload_id) \<noteq> []"
  by (simp add: staging_dir_def split_path_nonempty)

lemma upload_locks_before_launch:
  assumes "s_team sess = Some team"
    and "upload E sess method upload_id file w = (Redirect r, s', w')"
  shows "\<exists>w1. w' = launched team upload_id w1 \<and> threads w1 = threads w
     \<and> upload_state w1 team = Some True \<and> state_file w1 team = Some True"
proof -
  from upload_accepted [OF assms(2,1)] obtain c4 where
    "w' = launched team upload_id (registered team upload_id c4 w)" by blast
  then show ?thesis
    by (intro exI [of _ "registered team upload_id c4 w"]) (simp add: registered_def)
qed


section \<open>The registry of queues: lemmas\<close>

lemma upload_world_cases:
  "snd (snd (upload E sess meth u fl w)) = w
   \<or> (\<exists>c. snd (snd (upload E sess meth u fl w)) = w\<lparr>cwd := c\<rparr>)
   \<or> (\<exists>team c. snd (snd (upload E sess meth u fl w)) = launched team u (registered team u c w))"
proof (cases "upload E sess meth u fl w")
  case (fields r s' w')
  show ?thesis
  proof (cases r)
    case (Failure e)
    with fields upload_failure [of E sess meth u fl w e s' w'] show ?thesis by auto
  next
    case (Redirect x)
    show ?thesis
    proof (cases "s_team sess")
      case None
      with fields show ?thesis by (simp add: upload_def)
    next
      case (Some team)
      from upload_accepted [OF fields [unfolded Redirect] Some] fields show ?thesis by auto
    qed
  next
    case (Render a b)
    with fields show ?thesis
      unfolding upload_def Let_def
      by (auto split: option.splits sum.splits prod.splits if_splits)
  next
    case (Status a b)
    with fields show ?thesis
      unfolding upload_def Let_def
      by (auto split: option.splits sum.splits prod.splits if_splits)
  next
    case (EventStream a)
    with fields show ?thesis
      unfolding upload_def Let_def
      by (auto split: option.splits sum.splits prod.splits if_splits)
  qed
qed

lemma process_upload_frame:
  "upload_queues (snd (process_upload E u team temp w)) = upload_queues w"
  "next_queue (snd (process_upload E u team temp w)) = next_queue w"
  "upload_queues w u = Some q \<Longrightarrow> q' \<noteq> q \<Longrightarrow>
     queue_store (snd (process_upload E u team temp w)) q' = queue_store w q'"
  "upload_queues w u = None \<Longrightarrow> snd (process_upload E u team temp w) = w"
proof -
  have *: "upload_queues (snd (process_upload E u team temp w)) = upload_queues w
    \<and> next_queue (snd (process_upload E u team temp w)) = next_queue w
    \<and> (\<forall>q. upload_queues w u = Some q \<longrightarrow> q' \<noteq> q \<longrightarrow>
          queue_store (snd (process_upload E u team temp w)) q' = queue_store w q')
    \<and> (upload_queues w u = None \<longrightarrow> snd (process_upload E u team temp w) = w)"
  proof (cases "upload_queues w u")
    case None
    then show ?thesis by (simp add: process_upload_def)
  next
    case (Some q)
    obtain r w1 where t: "try_block E q u team temp w = (r, w1)"
      by (cases "try_block E q u team temp w") auto
    from try_block_any [OF t] obtain evs where a: "appended q w w1 evs" by blast
    have "snd (process_upload E u team temp w) = finally_block E q temp w1"
      using Some t by (simp add: process_upload_def)
    then show ?thesis using a Some
      by (simp add: finally_block_def Let_def q_put_simps appended_def)
  qed
  from * show "upload_queues (snd (process_upload E u team temp w)) = upload_queues w"
    and "next_queue (snd (process_upload E u team temp w)) = next_queue w"
    and "upload_queues w u = Some q \<Longrightarrow> q' \<noteq> q \<Longrightarrow>
     queue_store (snd (process_upload E u team temp w)) q' = queue_store w q'"
    and "upload_queues w u = None \<Longrightarrow> snd (process_upload E u team temp w) = w"
    by simp_all
qed

lemma step_keeps_registered:
  "upload_queues w uid \<noteq> None \<Longrightarrow> upload_queues (step E x w) uid \<noteq> None"
proof (cases x)
  case (DoUpload sess meth u fl)
  assume "upload_queues w uid \<noteq> None"
  then show ?thesis
    using upload_world_cases [of E sess meth u fl w]
    by (auto simp: DoUpload launched_def registered_def)
next
  case (DoWorker u team temp)
  assume "upload_queues w uid \<noteq> None"
  then show ?thesis by (simp add: DoWorker process_upload_frame)
qed (simp_all add: run_stream_def reset_team_def save_upload_state_def split: prod.splits)

lemma run_keeps_registered:
  "upload_queues w uid \<noteq> None \<Longrightarrow> upload_queues (run E xs w) uid \<noteq> None"
proof (induction xs arbitrary: w)
  case Nil
  then show ?case by simp
next
  case (Cons x xs)
  from Cons.IH [OF step_keeps_registered [OF Cons.prems]] show ?case by simp
qed

lemma stream_closed:
  "fst ev = ''closed'' \<Longrightarrow> \<forall>e\<in>set evs. fst e \<noteq> ''closed'' \<Longrightarrow>
     stream (evs @ [ev]) = (evs @ [ev], True)"
  by (induction evs) simp_all

lemma step_waiting:
  assumes "waiting uid w" and "\<not> is_worker_of uid x"
  shows "waiting uid (step E x w)"
proof (cases x)
  case (DoUpload sess meth u fl)
  from assms(1) obtain q where ok: "registry_ok w" and q: "upload_queues w uid = Some q"
    and e: "queue_store w q = []" by (auto simp: waiting_def)
  from ok q have lt: "q < next_queue w" by (auto simp: registry_ok_def)
  from upload_world_cases [of E sess meth u fl w]
  consider "step E x w = w" | c where "step E x w = w\<lparr>cwd := c\<rparr>"
    | team c where "step E x w = launched team u (registered team u c w)"
    by (auto simp: DoUpload)
  then show ?thesis
  proof cases
    case 1
    with assms(1) show ?thesis by simp
  next
    case 2
    with assms(1) show ?thesis by (simp add: waiting_def registry_ok_def)
  next
    case 3
    have "registry_ok (launched team u (registered team u c w))"
      using ok unfolding registry_ok_def launched_def registered_def
      by (auto simp: less_Suc_eq split: if_splits)
    moreover have "\<exists>q'. upload_queues (launched team u (registered team u c w)) uid = Some q'
        \<and> queue_store (launched team u (registered team u c w)) q' = []"
      using q e lt by (auto simp: launched_def registered_def)
    ultimately show ?thesis by (simp add: 3 waiting_def)
  qed
next
  case (DoWorker u team temp)
  from assms(2) have ne: "u \<noteq> uid" by (simp add: DoWorker)
  from assms(1) obtain q where ok: "registry_ok w" and q: "upload_queues w uid = Some q"
    and e: "queue_store w q = []" by (auto simp: waiting_def)
  let ?w = "snd (process_upload E u team temp w)"
  have ok': "registry_ok ?w" using ok by (simp add: registry_ok_def process_upload_frame)
  have "queue_store ?w q = []"
  proof (cases "upload_queues w u")
    case None
    then show ?thesis using e by (simp add: process_upload_frame)
  next
    case (Some q')
    with ok q ne have "q \<noteq> q'" by (auto simp: registry_ok_def)
    from process_upload_frame(3) [OF Some this] e show ?thesis by simp
  qed
  with ok' q show ?thesis by (simp add: DoWorker waiting_def process_upload_frame)
next
  case (DoStream q')
  from assms(1) show ?thesis
    by (auto simp: DoStream waiting_def registry_ok_def run_stream_def split: prod.splits)
next
  case (DoResetTeam sess team)
  from assms(1) show ?thesis
    by (auto simp: DoResetTeam waiting_def registry_ok_def reset_team_def save_upload_state_def)
qed (use assms(1) in simp_all)

lemma run_waiting:
  "waiting uid w \<Longrightarrow> \<forall>x\<in>set xs. \<not> is_worker_of uid x \<Longrightarrow> waiting uid (run E xs w)"
  by (induction xs arbitrary: w) (simp_all add: step_waiting)

lemma run_stream_empty: "queue_store w q = [] \<Longrightarrow> run_stream q w = (([], False), w)"
proof -
  assume e: "queue_store w q = []"
  then have "(queue_store w)(q := []) = queue_store w" by (metis fun_upd_triv)
  with e show ?thesis by (simp add: run_stream_def)
qed

text \<open>
  The worker of an accepted submission finds its queue: \<^verbatim>\<open>upload\<close> registers the queue
  before it starts the thread, and nothing that happens until the thread runs removes
  it.
\<close>

lemma submission_has_queue:
  assumes "s_team sess = Some team"
    and "upload E sess meth upload_id fl w = (Redirect r, s', w')"
  shows "upload_queues (run E xs w') upload_id \<noteq> None"
proof -
  from upload_accepted [OF assms(2,1)] obtain c4 where
    "w' = launched team upload_id (registered team upload_id c4 w)" by blast
  then have "upload_queues w' upload_id \<noteq> None" by (simp add: launched_def registered_def)
  then show ?thesis by (rule run_keeps_registered)
qed


section \<open>The worker: claims\<close>

text \<open>
  Claim C1, as the specification states it: for every submission whose file list has
  \<open>N\<close> files the worker emits exactly one \<open>info\<close>, then for each file, in the order
  of the file list, one \<open>upload_start\<close> with the index and \<open>N\<close> immediately followed
  by one \<open>upload_done\<close> or \<open>upload_error\<close>, then one \<open>finished\<close>, then one
  \<open>closed\<close>. This fails: when the remote store cannot be reached, \<^verbatim>\<open>requests\<close>
  raises inside \<^verbatim>\<open>github_upload\<close>, the exception leaves the loop, and the queue holds
  \<open>info\<close>, one \<open>upload_start\<close> and \<open>closed\<close> only.
\<close>

theorem worker_events_counterexample:
  "queue_store (snd (process_upload (example_env net_down) ''u1'' ''alpha'' ''temp_alpha_u1''
       (staged_world three_files))) 0
     = [(''info'', JStr ''3 files to upload.''),
        (''upload_start'', JObj [(''file'', JStr ''submissions/alpha/a.txt''),
                                 (''index'', JNum 1), (''total'', JNum 3)]),
        (''closed'', JStr ''Upload thread ended.'')]
   \<and> \<not> worker_protocol
         (map (remote_path ''alpha'' ''temp_alpha_u1'')
            (os_walk (cwd (staged_world three_files)) (split_path ''temp_alpha_u1'')))
         (queue_store (snd (process_upload (example_env net_down) ''u1'' ''alpha''
            ''temp_alpha_u1'' (staged_world three_files))) 0)"
  by code_simp

text \<open>
  Claim C1, amended: for every submission whose worker ends without an exception (in
  particular no call of \<^verbatim>\<open>github_upload\<close> raises), the events the worker puts on the
  queue of the submission are exactly the sequence the specification requires, for the
  files of the walk of the staging directory in the order of the walk.
\<close>

theorem worker_events_when_nothing_raises:
  assumes "upload_queues w upload_id = Some q"
    and "fst (process_upload E upload_id team temp_dir w) = None"
  shows "\<exists>evs. queue_store (snd (process_upload E upload_id team temp_dir w)) q
              = queue_store w q @ evs
           \<and> worker_protocol
               (map (remote_path team temp_dir) (os_walk (cwd w) (split_path temp_dir))) evs"
proof -
  obtain r w1 where t: "try_block E q upload_id team temp_dir w = (r, w1)"
    by (cases "try_block E q upload_id team temp_dir w") auto
  with assms have "r = None" by (simp add: process_upload_def)
  with t have "try_block E q upload_id team temp_dir w = (None, w1)" by simp
  from try_block_normal [OF this] obtain evs where a: "appended q w w1 evs"
    and p: "worker_protocol
       (map (remote_path team temp_dir) (os_walk (cwd w) (split_path temp_dir)))
       (evs @ [closed_event])" by blast
  have "queue_store (snd (process_upload E upload_id team temp_dir w)) q
      = queue_store w q @ evs @ [closed_event]"
    using assms t a by (simp add: process_upload_def finally_block_queue appended_def)
  with p show ?thesis by auto
qed

theorem worker_events_when_nothing_raises_witness:
  "upload_queues (staged_world three_files) ''u1'' = Some 0
   \<and> fst (process_upload (example_env net_created) ''u1'' ''alpha'' ''temp_alpha_u1''
             (staged_world three_files)) = None
   \<and> (\<exists>evs. queue_store (snd (process_upload (example_env net_created) ''u1'' ''alpha''
                  ''temp_alpha_u1'' (staged_world three_files))) 0
              = queue_store (staged_world three_files) 0 @ evs
           \<and> worker_protocol
               (map (remote_path ''alpha'' ''temp_alpha_u1'')
                  (os_walk (cwd (staged_world three_files)) (split_path ''temp_alpha_u1''))) evs)"
proof -
  have h1: "upload_queues (staged_world three_files) ''u1'' = Some 0" by code_simp
  have h2: "fst (process_upload (example_env net_created) ''u1'' ''alpha'' ''temp_alpha_u1''
             (staged_world three_files)) = None" by code_simp
  from worker_events_when_nothing_raises [OF h1 h2] h1 h2 show ?thesis by blast
qed

text \<open>
  Claim C2: on every way out of the worker of a submission, whether the \<^verbatim>\<open>try\<close>
  block ended or raised, what the worker has put on the queue of the submission ends
  with \<open>closed\<close>, and no other event it has put is a \<open>closed\<close>: nothing follows
  \<open>closed\<close>. The queue of a submission is registered when its worker runs
  (\<open>submission_has_queue\<close>).
\<close>

theorem closed_is_last:
  assumes "upload_queues w upload_id = Some q"
  shows "\<exists>evs. queue_store (snd (process_upload E upload_id team temp_dir w)) q
              = queue_store w q @ evs @ [closed_event]
           \<and> (\<forall>e\<in>set evs. fst e \<noteq> ''closed'')"
proof -
  obtain r w1 where t: "try_block E q upload_id team temp_dir w = (r, w1)"
    by (cases "try_block E q upload_id team temp_dir w") auto
  from try_block_any [OF t] obtain evs where
    a: "appended q w w1 (info_event (length (os_walk (cwd w) (split_path temp_dir))) # evs)"
    and k: "\<forall>e\<in>set evs. fst e \<in> insert ''finished'' file_kinds" by blast
  let ?evs = "info_event (length (os_walk (cwd w) (split_path temp_dir))) # evs"
  have "queue_store (snd (process_upload E upload_id team temp_dir w)) q
      = queue_store w q @ ?evs @ [closed_event]"
    using assms t a by (simp add: process_upload_def finally_block_queue appended_def)
  moreover have "\<forall>e\<in>set ?evs. fst e \<noteq> ''closed''"
    using k by (auto simp: info_event_def file_kinds_def)
  ultimately show ?thesis by blast
qed

theorem closed_is_last_witness:
  "upload_queues (staged_world three_files) ''u1'' = Some 0
   \<and> (\<exists>evs. queue_store (snd (process_upload (example_env net_down) ''u1'' ''alpha''
                  ''temp_alpha_u1'' (staged_world three_files))) 0
              = queue_store (staged_world three_files) 0 @ evs @ [closed_event]
           \<and> (\<forall>e\<in>set evs. fst e \<noteq> ''closed''))"
proof -
  have h1: "upload_queues (staged_world three_files) ''u1'' = Some 0" by code_simp
  from closed_is_last [OF h1] h1 show ?thesis by blast
qed

text \<open>
  Claim C3, as the specification states it: if \<^verbatim>\<open>github_upload\<close> returns failure for
  a file, the worker emits \<open>upload_error\<close> for it, still processes every file after it
  and still emits \<open>finished\<close> and \<open>closed\<close>. This fails: here the write of the first
  file is rejected and the remote store cannot be reached for the second; the third
  file is never started and \<open>finished\<close> is never emitted.
\<close>

theorem failed_upsert_counterexample:
  "worker_results (example_env net_fail_then_down) ''u1'' ''alpha'' ''temp_alpha_u1''
       (staged_world three_files)
     = [Inr (False, 500, ''Server Error''), Inl ConnectionError]
   \<and> queue_store (snd (process_upload (example_env net_fail_then_down) ''u1'' ''alpha''
        ''temp_alpha_u1'' (staged_world three_files))) 0
     = [(''info'', JStr ''3 files to upload.''),
        (''upload_start'', JObj [(''file'', JStr ''submissions/alpha/a.txt''),
                                 (''index'', JNum 1), (''total'', JNum 3)]),
        (''upload_error'', JObj [(''file'', JStr ''submissions/alpha/a.txt''),
                                 (''status'', JNum 500), (''response'', JStr ''Server Error'')]),
        (''upload_start'', JObj [(''file'', JStr ''submissions/alpha/d.bin''),
                                 (''index'', JNum 2), (''total'', JNum 3)]),
        (''closed'', JStr ''Upload thread ended.'')]"
  by code_simp

text \<open>
  Claim C3, amended: if \<^verbatim>\<open>github_upload\<close> returns failure for the file of index
  \<open>k + 1\<close>, the worker emits \<open>upload_error\<close> for that file immediately after its
  \<open>upload_start\<close>, with the status and the response returned, and ends with \<open>closed\<close>;
  and if no later step of the worker raises, the events are the whole sequence of the
  specification: every file after it is processed in order and \<open>finished\<close> is emitted.
\<close>

theorem failed_upsert_does_not_abort:
  assumes reg: "upload_queues w upload_id = Some q"
    and k: "k < length (worker_results E upload_id team temp_dir w)"
    and res: "worker_results E upload_id team temp_dir w ! k = Inr (False, status, resp)"
  shows "\<exists>pre post.
      queue_store (snd (process_upload E upload_id team temp_dir w)) q
        = queue_store w q @ pre
          @ [upload_start_event
               (remote_path team temp_dir (os_walk (cwd w) (split_path temp_dir) ! k)) (Suc k)
               (length (os_walk (cwd w) (split_path temp_dir))),
             upload_error_event
               (remote_path team temp_dir (os_walk (cwd w) (split_path temp_dir) ! k))
               status resp]
          @ post @ [closed_event]
      \<and> length pre = 2 * k + 1
      \<and> (fst (process_upload E upload_id team temp_dir w) = None \<longrightarrow>
           worker_protocol
             (map (remote_path team temp_dir) (os_walk (cwd w) (split_path temp_dir)))
             (pre
              @ [upload_start_event
                   (remote_path team temp_dir (os_walk (cwd w) (split_path temp_dir) ! k))
                   (Suc k) (length (os_walk (cwd w) (split_path temp_dir))),
                 upload_error_event
                   (remote_path team temp_dir (os_walk (cwd w) (split_path temp_dir) ! k))
                   status resp]
              @ post @ [closed_event]))"
proof -
  let ?files = "os_walk (cwd w) (split_path temp_dir)"
  let ?n = "length ?files"
  let ?xs = "zip [1..<Suc ?n] ?files"
  let ?w2 = "after_info q upload_id team temp_dir w"
  let ?g = "remote_path team temp_dir (?files ! k)"
  let ?pair = "[upload_start_event ?g (Suc k) ?n, upload_error_event ?g status resp]"
  obtain r w1 where t: "try_block E q upload_id team temp_dir w = (r, w1)"
    by (cases "try_block E q upload_id team temp_dir w") auto
  from try_block_loop [OF t] obtain w3 where
    l: "upload_loop E q upload_id team temp_dir ?n ?xs ?w2 = (r, w3)"
    and w1: "w1 = (if r = None then q_put q finished_event w3 else w3)" by blast
  note wr = worker_results_loop [OF reg, of E team temp_dir]
  from k wr have k': "k < length (upsert_results E q upload_id team temp_dir ?n ?xs ?w2)"
    by simp
  from res wr have res': "upsert_results E q upload_id team temp_dir ?n ?xs ?w2 ! k
      = Inr (False, status, resp)" by simp
  from k' upsert_results_length [of E q upload_id team temp_dir ?n ?xs ?w2]
  have kn: "k < ?n" by simp
  then have xk: "?xs ! k = (Suc k, ?files ! k)"
    by (simp add: nth_upt del: upt_Suc)
  from upload_loop_result_events [OF k' res' l] xk obtain pre post where
    a3: "appended q ?w2 w3 (pre @ ?pair @ post)" and len: "length pre = 2 * k"
    by (auto simp: outcome_event_def)
  let ?fin = "if r = None then [finished_event] else []"
  have a31: "appended q w3 w1 ?fin"
    using w1 appended_q_put [of q w3 finished_event] appended_Nil [of q w3] by simp
  have a1: "appended q w w1 ((info_event ?n # pre) @ ?pair @ (post @ ?fin))"
    using appended_trans [OF appended_after_info appended_trans [OF a3 a31]] by simp
  have fin: "snd (process_upload E upload_id team temp_dir w) = finally_block E q temp_dir w1"
    and r: "fst (process_upload E upload_id team temp_dir w) = r"
    using reg t by (simp_all add: process_upload_def)
  have q: "queue_store (snd (process_upload E upload_id team temp_dir w)) q
      = queue_store w q @ (info_event ?n # pre) @ ?pair @ (post @ ?fin) @ [closed_event]"
    using a1 by (simp add: fin finally_block_queue appended_def)
  have p: "r = None \<longrightarrow> worker_protocol (map (remote_path team temp_dir) ?files)
      ((info_event ?n # pre) @ ?pair @ (post @ ?fin) @ [closed_event])"
  proof
    assume "r = None"
    with t have "try_block E q upload_id team temp_dir w = (None, w1)" by simp
    from try_block_normal [OF this] obtain evs where a: "appended q w w1 evs"
      and wp: "worker_protocol (map (remote_path team temp_dir) ?files) (evs @ [closed_event])"
      by blast
    from appended_unique [OF a a1] wp
    show "worker_protocol (map (remote_path team temp_dir) ?files)
      ((info_event ?n # pre) @ ?pair @ (post @ ?fin) @ [closed_event])" by simp
  qed
  show ?thesis
    apply (rule exI [of _ "info_event ?n # pre"])
    apply (rule exI [of _ "post @ ?fin"])
    using q p len r by simp
qed

theorem failed_upsert_does_not_abort_witness:
  "upload_queues (staged_world three_files) ''u1'' = Some 0
   \<and> 1 < length (worker_results (example_env net_rejecting) ''u1'' ''alpha'' ''temp_alpha_u1''
                   (staged_world three_files))
   \<and> worker_results (example_env net_rejecting) ''u1'' ''alpha'' ''temp_alpha_u1''
        (staged_world three_files) ! 1 = Inr (False, 422, ''Unprocessable'')
   \<and> fst (process_upload (example_env net_rejecting) ''u1'' ''alpha'' ''temp_alpha_u1''
        (staged_world three_files)) = None
   \<and> (\<exists>pre post.
        queue_store (snd (process_upload (example_env net_rejecting) ''u1'' ''alpha''
            ''temp_alpha_u1'' (staged_world three_files))) 0
          = queue_store (staged_world three_files) 0 @ pre
            @ [upload_start_event ''submissions/alpha/d.bin'' 2 3,
               upload_error_event ''submissions/alpha/d.bin'' 422 ''Unprocessable'']
            @ post @ [closed_event]
        \<and> length pre = 3
        \<and> worker_protocol
             [''submissions/alpha/a.txt'', ''submissions/alpha/d.bin'',
              ''submissions/alpha/b/c.txt'']
             (pre
              @ [upload_start_event ''submissions/alpha/d.bin'' 2 3,
                 upload_error_event ''submissions/alpha/d.bin'' 422 ''Unprocessable'']
              @ post @ [closed_event]))"
proof -
  let ?E = "example_env net_rejecting" and ?w = "staged_world three_files"
  have h1: "upload_queues ?w ''u1'' = Some 0" by code_simp
  have h2: "1 < length (worker_results ?E ''u1'' ''alpha'' ''temp_alpha_u1'' ?w)" by code_simp
  have h3: "worker_results ?E ''u1'' ''alpha'' ''temp_alpha_u1'' ?w ! 1
      = Inr (False, 422, ''Unprocessable'')" by code_simp
  have h4: "fst (process_upload ?E ''u1'' ''alpha'' ''temp_alpha_u1'' ?w) = None" by code_simp
  have f: "os_walk (cwd ?w) (split_path ''temp_alpha_u1'')
      = [[''temp_alpha_u1'', ''a.txt''], [''temp_alpha_u1'', ''d.bin''],
         [''temp_alpha_u1'', ''b'', ''c.txt'']]" by code_simp
  have g: "map (remote_path ''alpha'' ''temp_alpha_u1'')
        [[''temp_alpha_u1'', ''a.txt''], [''temp_alpha_u1'', ''d.bin''],
         [''temp_alpha_u1'', ''b'', ''c.txt'']]
      = [''submissions/alpha/a.txt'', ''submissions/alpha/d.bin'',
         ''submissions/alpha/b/c.txt'']" by code_simp
  from failed_upsert_does_not_abort [OF h1 h2 h3] h4
  have "\<exists>pre post.
        queue_store (snd (process_upload ?E ''u1'' ''alpha'' ''temp_alpha_u1'' ?w)) 0
          = queue_store ?w 0 @ pre
            @ [upload_start_event ''submissions/alpha/d.bin'' 2 3,
               upload_error_event ''submissions/alpha/d.bin'' 422 ''Unprocessable'']
            @ post @ [closed_event]
        \<and> length pre = 3
        \<and> worker_protocol
             [''submissions/alpha/a.txt'', ''submissions/alpha/d.bin'',
              ''submissions/alpha/b/c.txt'']
             (pre
              @ [upload_start_event ''submissions/alpha/d.bin'' 2 3,
                 upload_error_event ''submissions/alpha/d.bin'' 422 ''Unprocessable'']
              @ post @ [closed_event])"
    unfolding f using g by (simp add: numeral_2_eq_2 numeral_3_eq_3)
  with h1 h2 h3 h4 show ?thesis by blast
qed






section \<open>GitHub upload helper: claims\<close>





section \<open>The upload route: claims\<close>




text \<open>
  Claim C7, as the specification states it: the file list comes from a deterministic
  walk of the staging directory that visits directories in a stable (for instance
  lexical) order, and the archive itself is not in it. The first part fails:
  \<^verbatim>\<open>os.walk\<close> is used without sorting, so the list follows the order in which the
  file system enumerates each directory. Two listings of the same two files give two
  file lists, one of them not lexical; and a directory listed lexically still gives its
  own files before those of its subdirectories.
\<close>

theorem file_list_order_counterexample:
  "os_walk (Dir [(''temp_alpha_u1'', Dir [(''b.txt'', File ''B''), (''a.txt'', File ''A'')])])
       [''temp_alpha_u1'']
     = [[''temp_alpha_u1'', ''b.txt''], [''temp_alpha_u1'', ''a.txt'']]
   \<and> os_walk (Dir [(''temp_alpha_u1'', Dir [(''a.txt'', File ''A''), (''b.txt'', File ''B'')])])
       [''temp_alpha_u1'']
     = [[''temp_alpha_u1'', ''a.txt''], [''temp_alpha_u1'', ''b.txt'']]
   \<and> os_walk (Dir [(''temp_alpha_u1'', Dir three_files)]) [''temp_alpha_u1'']
     = [[''temp_alpha_u1'', ''a.txt''], [''temp_alpha_u1'', ''d.bin''],
        [''temp_alpha_u1'', ''b'', ''c.txt'']]"
  by code_simp

text \<open>
  Claim C7, amended: for every accepted submission the archive saved as \<^verbatim>\<open>sub.zip\<close> is
  not in the file list, and the file list is the walk of the staging directory: its
  files in the order in which the file system enumerates them, followed by the files of
  its subdirectories, visited in that same enumeration order (no sorting is applied).
\<close>

theorem file_list_excludes_archive:
  assumes "s_team sess = Some team"
    and "upload E sess method upload_id file w = (Redirect r, s', w')"
  shows "split_path (staging_dir team upload_id) @ [''sub.zip'']
           \<notin> set (os_walk (cwd w') (split_path (staging_dir team upload_id)))
    \<and> (\<exists>es. get_node (cwd w') (split_path (staging_dir team upload_id)) = Some (Dir es)
          \<and> os_walk (cwd w') (split_path (staging_dir team upload_id))
              = map (\<lambda>n. split_path (staging_dir team upload_id) @ [n]) (file_names es)
                @ map ((@) (split_path (staging_dir team upload_id))) (walk_dirs es))"
proof -
  let ?d = "split_path (staging_dir team upload_id)"
  from upload_accepted [OF assms(2,1)] obtain c3 c4 where
    rm: "os_remove (?d @ [''sub.zip'']) c3 = Inr c4"
    and w': "w' = launched team upload_id (registered team upload_id c4 w)" by blast
  have c: "cwd w' = c4" by (simp add: w' launched_def registered_def)
  from os_remove_parent [OF rm] obtain es where g: "get_node c4 ?d = Some (Dir es)"
    and n: "''sub.zip'' \<notin> fst ` set es" by blast
  have "?d @ [''sub.zip''] \<notin> set (os_walk c4 ?d)"
    using g n single_in_walk [of "''sub.zip''" "Dir es"] by (auto simp: os_walk_def)
  moreover have "os_walk c4 ?d = map (\<lambda>n. ?d @ [n]) (file_names es) @ map ((@) ?d) (walk_dirs es)"
    using g staging_dir_nonempty [of team upload_id] by (simp add: os_walk_def)
  ultimately show ?thesis using g by (simp add: c)
qed

theorem file_list_excludes_archive_witness:
  "s_team alpha_session = Some ''alpha''
   \<and> fst (upload (example_env net_created) alpha_session ''POST'' ''u1'' (Some ''PK-abd'')
        start_world) = Redirect ''success?upload_id=u1''
   \<and> split_path (staging_dir ''alpha'' ''u1'') @ [''sub.zip'']
        \<notin> set (os_walk (cwd (snd (snd (upload (example_env net_created) alpha_session ''POST''
                   ''u1'' (Some ''PK-abd'') start_world))))
             (split_path (staging_dir ''alpha'' ''u1'')))"
proof -
  let ?u = "upload (example_env net_created) alpha_session ''POST'' ''u1'' (Some ''PK-abd'')
        start_world"
  have h1: "s_team alpha_session = Some ''alpha''" by code_simp
  have h0: "fst ?u = Redirect ''success?upload_id=u1''" by code_simp
  then have h2: "?u = (Redirect ''success?upload_id=u1'', fst (snd ?u), snd (snd ?u))"
    by (simp add: prod_eq_iff)
  from file_list_excludes_archive [OF h1 h2] h1 h0 show ?thesis by blast
qed




text \<open>
  Claim C5: the lock of the owner is set and persisted before the worker is launched
  (\<open>upload_locks_before_launch\<close> above), and a second submission of an owner whose
  lock is set is rejected before any worker is launched. The second part is what the
  program intends (\<^verbatim>\<open>verify\<close> checks the lock, under the comment \<^verbatim>\<open>Check if team
  already submitted\<close>) and what it misses: \<^verbatim>\<open>upload\<close> never reads \<^verbatim>\<open>upload_state\<close>. A
  session accepted by \<^verbatim>\<open>/\<close> before the first upload, in a second browser of the team or
  as a kept copy of the cookie, still carries the team. Evaluated here: with the lock
  of \<open>alpha\<close> set, \<^verbatim>\<open>/\<close> rejects the team, and \<^verbatim>\<open>/upload\<close> with such a session accepts a
  second archive and starts a second worker.
\<close>

theorem second_submission_is_accepted:
  "verify (example_env net_created) no_session ''POST'' alpha_form start_world
     = (Redirect ''upload'', alpha_session)
   \<and> upload_state after_first_upload ''alpha'' = Some True
   \<and> verify (example_env net_created) no_session ''POST'' alpha_form after_first_upload
     = (Render ''verify.html'' (Some ''Your team already submitted. Contact admin to unlock.''),
        no_session)
   \<and> fst (upload (example_env net_created) alpha_session ''POST'' ''u2'' (Some ''PK-a'')
        after_first_upload) = Redirect ''success?upload_id=u2''
   \<and> threads (snd (snd (upload (example_env net_created) alpha_session ''POST'' ''u2''
        (Some ''PK-a'') after_first_upload)))
     = [(''u1'', ''alpha'', ''temp_alpha_u1''), (''u2'', ''alpha'', ''temp_alpha_u2'')]"
  by code_simp


section \<open>The registry of queues: claims\<close>

text \<open>
  Claim C10: no operation removes an entry of \<^verbatim>\<open>upload_queues\<close>, so an upload id that
  is registered stays registered whatever happens afterwards; the first consumer of the
  stream of a finished submission receives every event up to \<open>closed\<close> and its stream
  ends; and a later request for the stream of that submission, after any operations
  other than a new run of its worker, is accepted (not answered 404) and its generator
  yields nothing: it waits in \<^verbatim>\<open>q.get()\<close> on an empty queue, leaving the state as it
  is, so that it waits for as long as nothing is put.
\<close>

theorem registration_persists_late_stream_blocks:
  assumes "registry_ok w" and "upload_queues w upload_id = Some q"
    and "queue_store w q = evs @ [ev]" and "fst ev = ''closed''"
    and "\<forall>e\<in>set evs. fst e \<noteq> ''closed''"
    and "\<forall>x\<in>set ops. \<not> is_worker_of upload_id x"
  shows "(\<forall>xs. upload_queues (run E xs w) upload_id \<noteq> None)
    \<and> fst (run_stream q w) = (evs @ [ev], True)
    \<and> (\<exists>q'. events upload_id (run E ops (snd (run_stream q w))) = EventStream q'
          \<and> run_stream q' (run E ops (snd (run_stream q w)))
              = (([], False), run E ops (snd (run_stream q w))))"
proof -
  let ?w1 = "snd (run_stream q w)"
  let ?w2 = "run E ops ?w1"
  have s: "stream (queue_store w q) = (evs @ [ev], True)"
    using assms(3-5) by (simp add: stream_closed)
  then have w1: "?w1 = w\<lparr>queue_store := (queue_store w)(q := [])\<rparr>"
    using assms(3) by (simp add: run_stream_def)
  have "waiting upload_id ?w1"
    using assms(1,2) by (auto simp: w1 waiting_def registry_ok_def)
  from run_waiting [OF this assms(6)] obtain q' where
    q': "upload_queues ?w2 upload_id = Some q'" and e: "queue_store ?w2 q' = []"
    by (auto simp: waiting_def)
  have "events upload_id ?w2 = EventStream q'" using q' by (simp add: events_def)
  moreover have "run_stream q' ?w2 = (([], False), ?w2)"
    using e by (rule run_stream_empty)
  moreover have "\<forall>xs. upload_queues (run E xs w) upload_id \<noteq> None"
    using run_keeps_registered [of w upload_id] assms(2) by simp
  moreover have "fst (run_stream q w) = (evs @ [ev], True)"
    using s by (simp add: run_stream_def)
  ultimately show ?thesis by blast
qed

theorem registration_persists_late_stream_blocks_witness:
  "upload_queues relayed_world ''u1'' = Some 0
   \<and> queue_store relayed_world 0
       = [info_event 1, upload_start_event ''submissions/alpha/a.txt'' 1 1,
          upload_done_event ''submissions/alpha/a.txt'' 201, finished_event] @ [closed_event]
   \<and> fst closed_event = ''closed''
   \<and> fst (run_stream 0 relayed_world)
       = ([info_event 1, upload_start_event ''submissions/alpha/a.txt'' 1 1,
           upload_done_event ''submissions/alpha/a.txt'' 201, finished_event] @ [closed_event],
          True)
   \<and> (\<exists>q'. events ''u1'' (run (example_env net_created) later_operations
                (snd (run_stream 0 relayed_world))) = EventStream q'
          \<and> run_stream q' (run (example_env net_created) later_operations
                (snd (run_stream 0 relayed_world)))
              = (([], False), run (example_env net_created) later_operations
                (snd (run_stream 0 relayed_world))))"
proof -
  let ?evs = "[info_event 1, upload_start_event ''submissions/alpha/a.txt'' 1 1,
          upload_done_event ''submissions/alpha/a.txt'' 201, finished_event]"
  have h1: "registry_ok relayed_world"
    by (simp add: relayed_world_def registry_ok_def process_upload_frame staged_world_def)
  have h2: "upload_queues relayed_world ''u1'' = Some 0" by code_simp
  have h3: "queue_store relayed_world 0 = ?evs @ [closed_event]" by code_simp
  have h4: "fst closed_event = ''closed''" by code_simp
  have h5: "\<forall>e\<in>set ?evs. fst e \<noteq> ''closed''" by code_simp
  have h6: "\<forall>x\<in>set later_operations. \<not> is_worker_of ''u1'' x"
    by (simp add: later_operations_def)
  from registration_persists_late_stream_blocks [OF h1 h2 h3 h4 h5 h6] h2 h3 h4
  show ?thesis by blast
qed

end
